theory Spec2Isabelle
  imports Complex_Main "HOL-Library.Sublist"
begin

section \<open>The log hub of \<open>server.js\<close>\<close>

text \<open>
  \<open>server.js\<close> keeps two process-wide maps (lines 29-30):
  \<^verbatim>\<open>logSubscribers\<close>, from an app id to the array of its WebSocket connections, and
  \<^verbatim>\<open>buildLogs\<close>, from a build id to the array of its log lines. Ids are strings (the
  WebSocket handler reads them from the query string). A connection object is
  identified by a number; \<^verbatim>\<open>ws.readyState\<close> is a field of the connection that the
  \<^verbatim>\<open>ws\<close> library changes, so the state holds it as a function of the connection.
  Every \<^verbatim>\<open>ws.send\<close> is recorded, in order, in the list \<open>sent\<close>; the JSON text that is
  sent is kept as a value of type \<open>message\<close>. A timestamp is the clock reading in
  milliseconds (the source renders it with \<^verbatim>\<open>toISOString\<close>).
\<close>

type_synonym ws = nat

datatype readyState = CONNECTING | OPEN | CLOSING | CLOSED

datatype message =
    Replay "string list"  \<comment> \<open>\<^verbatim>\<open>{type: 'logs', data: buildLogs.get(buildId)}\<close>, line 108\<close>
  | Live string nat       \<comment> \<open>\<^verbatim>\<open>{type: 'logs', data: logData, timestamp}\<close>, line 132\<close>

record hub =
  logSubscribers :: "string \<rightharpoonup> ws list"
  buildLogs :: "string \<rightharpoonup> string list"
  ready :: "ws \<Rightarrow> readyState"
  closeHandler :: "ws \<rightharpoonup> string"
  sent :: "(ws \<times> message) list"

text \<open>\<^verbatim>\<open>ws.send(JSON.stringify(m))\<close>: one more entry of the record of sends.\<close>

definition send :: "ws \<Rightarrow> message \<Rightarrow> hub \<Rightarrow> hub" where
  "send w m h = h\<lparr>sent := sent h @ [(w, m)]\<rparr>"

text \<open>
  \<^verbatim>\<open>subscribers.forEach(ws => { if (ws.readyState === WebSocket.OPEN) ws.send(...) })\<close>,
  lines 130-138.
\<close>

fun forEach_send :: "ws list \<Rightarrow> message \<Rightarrow> hub \<Rightarrow> hub" where
  "forEach_send [] m h = h"
| "forEach_send (w # wss) m h =
     forEach_send wss m (if ready h w = OPEN then send w m h else h)"

text \<open>\<^verbatim>\<open>broadcastLogs(appId, logData)\<close>, lines 127-140; \<open>now\<close> is \<^verbatim>\<open>new Date()\<close>.\<close>

definition broadcastLogs :: "string \<Rightarrow> string \<Rightarrow> nat \<Rightarrow> hub \<Rightarrow> hub" where
  "broadcastLogs appId logData now h =
     (case logSubscribers h appId of
        None \<Rightarrow> h
      | Some subscribers \<Rightarrow> forEach_send subscribers (Live logData now) h)"

text \<open>
  Lines 303-304, the two statements with which \<^verbatim>\<open>simulateBuildLogs\<close> publishes a line:
  \<^verbatim>\<open>buildLogs.set(appId, [...(buildLogs.get(appId) || []), log]); broadcastLogs(appId, log);\<close>
\<close>

definition publish :: "string \<Rightarrow> string \<Rightarrow> nat \<Rightarrow> hub \<Rightarrow> hub" where
  "publish appId line now h =
     broadcastLogs appId line now
       (h\<lparr>buildLogs := (buildLogs h)
            (appId \<mapsto> (case buildLogs h appId of None \<Rightarrow> [] | Some ls \<Rightarrow> ls) @ [line])\<rparr>)"

text \<open>
  JavaScript truthiness of a value that is a string or \<^verbatim>\<open>null\<close>/\<^verbatim>\<open>undefined\<close>:
  \<^verbatim>\<open>null\<close> and the empty string are falsy.
\<close>

fun truthy :: "string option \<Rightarrow> bool" where
  "truthy None = False"
| "truthy (Some s) = (s \<noteq> [])"

text \<open>
  \<^verbatim>\<open>buildLogs.has(buildId)\<close> and \<^verbatim>\<open>buildLogs.get(buildId)\<close> where \<^verbatim>\<open>buildId\<close> may be
  \<^verbatim>\<open>null\<close>: the keys of the map are strings, so \<^verbatim>\<open>null\<close> is never a key.
\<close>

fun get_opt :: "(string \<rightharpoonup> 'a) \<Rightarrow> string option \<Rightarrow> 'a option" where
  "get_opt m None = None"
| "get_opt m (Some k) = m k"

text \<open>
  The \<^verbatim>\<open>'connection'\<close> handler, lines 94-124, for the connection \<open>w\<close> and the values of
  \<^verbatim>\<open>url.searchParams.get('appId')\<close> and \<^verbatim>\<open>url.searchParams.get('buildId')\<close>. Registering
  the \<^verbatim>\<open>'close'\<close> listener stores the \<^verbatim>\<open>appId\<close> of its closure under the connection.
\<close>

definition connection :: "ws \<Rightarrow> string option \<Rightarrow> string option \<Rightarrow> hub \<Rightarrow> hub" where
  "connection w appId buildId h =
     (if truthy appId then
        let a = the appId;
            h1 = (if logSubscribers h a = None
                  then h\<lparr>logSubscribers := (logSubscribers h)(a \<mapsto> [])\<rparr> else h);
            h2 = h1\<lparr>logSubscribers :=
                      (logSubscribers h1)(a \<mapsto> the (logSubscribers h1 a) @ [w])\<rparr>;
            h3 = (case get_opt (buildLogs h2) buildId of
                    None \<Rightarrow> h2
                  | Some ls \<Rightarrow> send w (Replay ls) h2)
        in h3\<lparr>closeHandler := (closeHandler h3)(w \<mapsto> a)\<rparr>
      else h)"

text \<open>
  The body of the \<^verbatim>\<open>'close'\<close> listener, lines 115-117, for the connection \<open>w\<close> and the
  \<^verbatim>\<open>appId\<close> of its closure. \<^verbatim>\<open>indexOf\<close> finds the first occurrence and \<^verbatim>\<open>splice\<close> removes
  that one element in place; with no entry in the map the temporary \<^verbatim>\<open>[]\<close> is
  searched and nothing is stored.
\<close>

definition unsubscribe :: "string \<Rightarrow> ws \<Rightarrow> hub \<Rightarrow> hub" where
  "unsubscribe appId w h =
     (case logSubscribers h appId of
        None \<Rightarrow> h
      | Some subscribers \<Rightarrow>
          if w \<in> set subscribers
          then h\<lparr>logSubscribers := (logSubscribers h)(appId \<mapsto> remove1 w subscribers)\<rparr>
          else h)"

text \<open>The \<^verbatim>\<open>'close'\<close> event of a connection runs the listener if one was registered.\<close>

definition on_close :: "ws \<Rightarrow> hub \<Rightarrow> hub" where
  "on_close w h = (case closeHandler h w of None \<Rightarrow> h | Some a \<Rightarrow> unsubscribe a w h)"

text \<open>
  What can happen to the hub, one event at a time: a connection arrives, a connection
  closes, a line is published, the \<^verbatim>\<open>ws\<close> library changes the \<^verbatim>\<open>readyState\<close> of a
  connection, or the purge of line 309 (\<^verbatim>\<open>buildLogs.delete(appId)\<close>) runs.
\<close>

datatype hub_event =
    Connection ws "string option" "string option"
  | Close ws
  | Publish string string nat
  | ReadyState ws readyState
  | Delete string

fun hub_step :: "hub_event \<Rightarrow> hub \<Rightarrow> hub" where
  "hub_step (Connection w appId buildId) h = connection w appId buildId h"
| "hub_step (Close w) h = on_close w h"
| "hub_step (Publish appId line now) h = publish appId line now h"
| "hub_step (ReadyState w r) h = h\<lparr>ready := (ready h)(w := r)\<rparr>"
| "hub_step (Delete appId) h = h\<lparr>buildLogs := (buildLogs h)(appId := None)\<rparr>"

fun hub_run :: "hub_event list \<Rightarrow> hub \<Rightarrow> hub" where
  "hub_run [] h = h"
| "hub_run (e # es) h = hub_run es (hub_step e h)"

text \<open>
  The connection objects that arrive in a list of events. An object arrives once, so
  in a list of events that can happen these are distinct.
\<close>

fun conn_ids :: "hub_event list \<Rightarrow> ws list" where
  "conn_ids [] = []"
| "conn_ids (Connection w a b # es) = w # conn_ids es"
| "conn_ids (e # es) = conn_ids es"

text \<open>The messages that the record of sends holds for one connection, in order.\<close>

definition received :: "ws \<Rightarrow> hub \<Rightarrow> message list" where
  "received w h = map snd (filter (\<lambda>p. fst p = w) (sent h))"

text \<open>
  The subscribers of a subject, as line 115 reads them (\<^verbatim>\<open>logSubscribers.get(appId) || []\<close>),
  and the buffer of a subject, as line 303 reads it (\<^verbatim>\<open>buildLogs.get(appId) || []\<close>).
\<close>

definition subscribers_of :: "hub \<Rightarrow> string \<Rightarrow> ws list" where
  "subscribers_of h appId = (case logSubscribers h appId of None \<Rightarrow> [] | Some wss \<Rightarrow> wss)"

definition buffer_of :: "hub \<Rightarrow> string \<Rightarrow> string list" where
  "buffer_of h appId = (case buildLogs h appId of None \<Rightarrow> [] | Some ls \<Rightarrow> ls)"

text \<open>
  The hub when the server starts: both maps empty, nothing sent. A connection is open
  when its \<^verbatim>\<open>'connection'\<close> event is emitted, so \<open>ready\<close> starts as \<^verbatim>\<open>OPEN\<close> for every
  connection to come.
\<close>

definition hub_init :: hub where
  "hub_init = \<lparr>logSubscribers = Map.empty, buildLogs = Map.empty, ready = (\<lambda>w. OPEN),
               closeHandler = Map.empty, sent = []\<rparr>"

text \<open>Whether a message is a live push (it has a \<^verbatim>\<open>timestamp\<close>) rather than a replay.\<close>

fun live :: "message \<Rightarrow> bool" where
  "live (Live l t) = True"
| "live (Replay ls) = False"

section \<open>Build sessions and their timers\<close>

text \<open>
  \<^verbatim>\<open>simulateBuildLogs\<close> (lines 290-312) works through \<^verbatim>\<open>setInterval\<close> and \<^verbatim>\<open>setTimeout\<close>.
  A pending timer is the time at which it is due, in milliseconds, and the closure it
  will run: the interval callback with its \<^verbatim>\<open>appId\<close>, \<^verbatim>\<open>messages\<close> and \<^verbatim>\<open>index\<close>, or the
  purge of line 309 with its \<^verbatim>\<open>appId\<close>. Timers are idealised: a timer fires exactly when
  it is due, the earliest first, and among timers due together the one set first.
\<close>

datatype callback =
    BuildTick string "string list" nat
  | Purge string

record world =
  state :: hub
  clock :: nat
  timers :: "(nat \<times> callback) list"

definition rocket :: string where
  "rocket = [CHR 0xF0, CHR 0x9F, CHR 0x9A, CHR 0x80]"

definition messages :: "string \<Rightarrow> string list" where
  "messages templateName =
     [ [CHR 0xF0, CHR 0x9F, CHR 0x93, CHR 0xA6] @ '' Cloning '' @ templateName @ '' template...'',
       [CHR 0xF0, CHR 0x9F, CHR 0x94, CHR 0xA7] @ '' Installing dependencies...'',
       [CHR 0xF0, CHR 0x9F, CHR 0x90, CHR 0xB3] @ '' Building Docker image...'',
       rocket @ '' Starting container...'',
       [CHR 0xE2, CHR 0x9C, CHR 0x85] @ '' Deployment complete!'' ]"

text \<open>
  \<^verbatim>\<open>simulateBuildLogs(appId, templateName)\<close>: the call itself only sets the interval, with
  \<^verbatim>\<open>index = 0\<close>, first due 2000 ms later.
\<close>

definition simulateBuildLogs :: "string \<Rightarrow> string \<Rightarrow> world \<Rightarrow> world" where
  "simulateBuildLogs appId templateName w =
     w\<lparr>timers := timers w @ [(clock w + 2000, BuildTick appId (messages templateName) 0)]\<rparr>"

text \<open>
  Running a timer that has just been taken out of the list, at the time \<open>due\<close>. The
  interval callback (lines 301-310) publishes \<^verbatim>\<open>messages[index]\<close> and increments
  \<^verbatim>\<open>index\<close> while \<^verbatim>\<open>index < messages.length\<close>, and the interval stays set, due again
  2000 ms later; otherwise it clears the interval and sets the purge, due 3600000 ms
  later. The purge deletes the entry of \<^verbatim>\<open>buildLogs\<close>.
\<close>

fun fire :: "nat \<Rightarrow> callback \<Rightarrow> world \<Rightarrow> world" where
  "fire due (BuildTick appId msgs index) w =
     (if index < length msgs
      then w\<lparr>state := publish appId (msgs ! index) due (state w),
             timers := timers w @ [(due + 2000, BuildTick appId msgs (index + 1))]\<rparr>
      else w\<lparr>timers := timers w @ [(due + 3600000, Purge appId)]\<rparr>)"
| "fire due (Purge appId) w =
     w\<lparr>state := hub_step (Delete appId) (state w)\<rparr>"

text \<open>The timer that fires next: the least due time, the first of those set.\<close>

fun next_timer :: "(nat \<times> callback) list \<Rightarrow> (nat \<times> callback) option" where
  "next_timer [] = None"
| "next_timer (t # ts) =
     (case next_timer ts of
        None \<Rightarrow> Some t
      | Some t' \<Rightarrow> if fst t' < fst t then Some t' else Some t)"

text \<open>One turn of the event loop; \<open>None\<close> when no timer is pending.\<close>

definition tick :: "world \<Rightarrow> world option" where
  "tick w =
     (case next_timer (timers w) of
        None \<Rightarrow> None
      | Some (due, t) \<Rightarrow>
          Some (fire due t (w\<lparr>clock := due, timers := remove1 (due, t) (timers w)\<rparr>)))"

text \<open>At most \<open>n\<close> turns of the event loop, stopping when no timer is pending.\<close>

fun run :: "nat \<Rightarrow> world \<Rightarrow> world" where
  "run 0 w = w"
| "run (Suc n) w = (case tick w of None \<Rightarrow> w | Some w' \<Rightarrow> run n w')"

text \<open>
  Lines 272-277, what the deployment handler does with the \<^verbatim>\<open>app_id\<close> of the answer of
  the platform API (absent when the answer has none) and the name of the template:
  when the \<^verbatim>\<open>app_id\<close> is truthy it stores the start line as the buffer of that id and
  calls \<^verbatim>\<open>simulateBuildLogs\<close>.
\<close>

definition start_session :: "string option \<Rightarrow> string \<Rightarrow> world \<Rightarrow> world" where
  "start_session app_id templateName w =
     (if truthy app_id
      then simulateBuildLogs (the app_id) templateName
             (w\<lparr>state := (state w)\<lparr>buildLogs :=
                   (buildLogs (state w))
                     (the app_id \<mapsto> [rocket @ '' Starting template deployment...''])\<rparr>\<rparr>)
      else w)"

text \<open>
  The table \<^verbatim>\<open>TEMPLATES\<close> (lines 221-246), reduced to the \<^verbatim>\<open>name\<close> of each template: the
  other fields only go into the request to the platform API.
\<close>

definition TEMPLATES :: "string \<rightharpoonup> string" where
  "TEMPLATES =
     [''nodejs-api'' \<mapsto> ''Node.js API'',
      ''python-fastapi'' \<mapsto> ''Python FastAPI'',
      ''static-site'' \<mapsto> ''Static Site'',
      ''wordpress'' \<mapsto> ''WordPress'']"

text \<open>
  \<^verbatim>\<open>TEMPLATES\<close> is an object literal, so \<^verbatim>\<open>TEMPLATES[templateId]\<close> also finds the properties
  that every object inherits from \<^verbatim>\<open>Object.prototype\<close>. Each of them is a function, and
  \<^verbatim>\<open>__proto__\<close> is the prototype object itself: all are truthy, so the check of line 253
  lets them pass. \<open>Object_prototype\<close> gives, for each inherited key, the text that the
  template literal of line 292 makes of \<^verbatim>\<open>template.name\<close>: the name of the function, and
  \<^verbatim>\<open>undefined\<close> for the prototype object, which has no \<^verbatim>\<open>name\<close>.
\<close>

definition Object_prototype :: "string \<rightharpoonup> string" where
  "Object_prototype =
     [''constructor'' \<mapsto> ''Object'',
      ''__defineGetter__'' \<mapsto> ''__defineGetter__'',
      ''__defineSetter__'' \<mapsto> ''__defineSetter__'',
      ''hasOwnProperty'' \<mapsto> ''hasOwnProperty'',
      ''__lookupGetter__'' \<mapsto> ''__lookupGetter__'',
      ''__lookupSetter__'' \<mapsto> ''__lookupSetter__'',
      ''isPrototypeOf'' \<mapsto> ''isPrototypeOf'',
      ''propertyIsEnumerable'' \<mapsto> ''propertyIsEnumerable'',
      ''toString'' \<mapsto> ''toString'',
      ''valueOf'' \<mapsto> ''valueOf'',
      ''toLocaleString'' \<mapsto> ''toLocaleString'',
      ''__proto__'' \<mapsto> ''undefined'']"

text \<open>
  Line 252, \<^verbatim>\<open>TEMPLATES[templateId]\<close>, as the name of what is found: an own key first,
  then an inherited one; \<open>None\<close> when the lookup gives \<^verbatim>\<open>undefined\<close>.
\<close>

definition template_name :: "string \<Rightarrow> string option" where
  "template_name templateId =
     (case TEMPLATES templateId of
        Some name \<Rightarrow> Some name
      | None \<Rightarrow> Object_prototype templateId)"

datatype fetch_error = FetchError

datatype deploy_response = NotFound404 | Failed500 | Deployed200

text \<open>
  \<^verbatim>\<open>POST /api/templates/:templateId/deploy\<close> (lines 248-288). \<open>fetched\<close> is what the call
  of the platform API gives: an error (the request or the parsing of its answer
  throws), or the \<^verbatim>\<open>app_id\<close> of the parsed answer, if it has one. The world is the
  one in which the code after the \<^verbatim>\<open>await\<close>s runs.
\<close>

definition deploy ::
  "string \<Rightarrow> (fetch_error + string option) \<Rightarrow> world \<Rightarrow> deploy_response \<times> world" where
  "deploy templateId fetched w =
     (case template_name templateId of
        None \<Rightarrow> (NotFound404, w)
      | Some name \<Rightarrow>
          (case fetched of
             Inl e \<Rightarrow> (Failed500, w)
           | Inr app_id \<Rightarrow> (Deployed200, start_session app_id name w)))"

text \<open>
  A callback is about the subject whose \<^verbatim>\<open>appId\<close> its closure holds; the pending timers
  of a subject are those whose callbacks are about it.
\<close>

fun about :: "string \<Rightarrow> callback \<Rightarrow> bool" where
  "about S (BuildTick appId msgs index) = (appId = S)"
| "about S (Purge appId) = (appId = S)"

definition own_timers :: "string \<Rightarrow> world \<Rightarrow> (nat \<times> callback) list" where
  "own_timers S w = filter (\<lambda>t. about S (snd t)) (timers w)"

text \<open>
  What happens in the server while a session runs: a turn of the event loop fires the
  next timer, something happens to the hub from outside, or a deployment request is
  answered. From outside come connections arriving and closing and changes of
  \<^verbatim>\<open>readyState\<close>; publishing and purging are done by timers only. A deployment turn
  carries the time at which the handler runs the code after its \<^verbatim>\<open>await\<close>s.
\<close>

fun external :: "hub_event \<Rightarrow> bool" where
  "external (Connection w a b) = True"
| "external (Close w) = True"
| "external (ReadyState w r) = True"
| "external (Publish a l t) = False"
| "external (Delete a) = False"

datatype turn =
    Timer
  | Hub hub_event
  | Deploy nat string "fetch_error + string option"

fun turn_step :: "turn \<Rightarrow> world \<Rightarrow> world" where
  "turn_step Timer w = (case tick w of None \<Rightarrow> w | Some w' \<Rightarrow> w')"
| "turn_step (Hub e) w = w\<lparr>state := hub_step e (state w)\<rparr>"
| "turn_step (Deploy now templateId fetched) w = snd (deploy templateId fetched (w\<lparr>clock := now\<rparr>))"

fun drive :: "turn list \<Rightarrow> world \<Rightarrow> world" where
  "drive [] w = w"
| "drive (t # ts) w = drive ts (turn_step t w)"

text \<open>
  The turns that leave a session for the subject \<open>S\<close> to itself: timers, events from
  outside, and deployments that are not answered with the \<^verbatim>\<open>app_id\<close> \<open>S\<close>.
\<close>

fun foreign :: "string \<Rightarrow> turn \<Rightarrow> bool" where
  "foreign S Timer = True"
| "foreign S (Hub e) = external e"
| "foreign S (Deploy now templateId fetched) = (fetched \<noteq> Inr (Some S))"

text \<open>How many callbacks about a subject fire during a list of turns.\<close>

fun fired :: "string \<Rightarrow> turn list \<Rightarrow> world \<Rightarrow> nat" where
  "fired S [] w = 0"
| "fired S (Timer # ts) w =
     (case next_timer (timers w) of
        None \<Rightarrow> 0
      | Some (due, cb) \<Rightarrow> if about S cb then 1 else 0)
     + fired S ts (turn_step Timer w)"
| "fired S (t # ts) w = fired S ts (turn_step t w)"

text \<open>The publishes of the ticks \<open>i, ..., i + k - 1\<close>, the first at the time \<open>d\<close>.\<close>

fun publishes :: "string \<Rightarrow> string list \<Rightarrow> nat \<Rightarrow> nat \<Rightarrow> nat \<Rightarrow> hub_event list" where
  "publishes S msgs i d 0 = []"
| "publishes S msgs i d (Suc k) = Publish S (msgs ! i) d # publishes S msgs (i + 1) (d + 2000) k"

section \<open>Routing by host name\<close>

text \<open>
  \<^verbatim>\<open>String.prototype.split\<close> with a string separator. \<open>js_split_go\<close> scans the rest of the
  string with the piece collected so far; after a match of the separator it skips the
  remaining characters of that match.
\<close>

fun js_split_go :: "string \<Rightarrow> nat \<Rightarrow> string \<Rightarrow> string \<Rightarrow> string list" where
  "js_split_go sep skip cur [] = [cur]"
| "js_split_go sep skip cur (c # cs) =
     (if 0 < skip then js_split_go sep (skip - 1) cur cs
      else if prefix sep (c # cs) then cur # js_split_go sep (length sep - 1) [] cs
      else js_split_go sep 0 (cur @ [c]) cs)"

definition js_split :: "string \<Rightarrow> string \<Rightarrow> string list" where
  "js_split sep s = (if sep = [] then map (\<lambda>c. [c]) s else js_split_go sep 0 [] s)"

text \<open>Indexing an array: \<^verbatim>\<open>undefined\<close> (here \<open>None\<close>) out of range.\<close>

fun nth_opt :: "'a list \<Rightarrow> nat \<Rightarrow> 'a option" where
  "nth_opt [] i = None"
| "nth_opt (x # xs) 0 = Some x"
| "nth_opt (x # xs) (Suc i) = nth_opt xs i"

text \<open>
  An element of the array that \<^verbatim>\<open>GET /api/apps\<close> returns, with the fields the
  middleware reads. \<open>port\<close> is the text that the template literal of line 74 makes of
  the field.
\<close>

record app =
  url :: string
  status :: string
  container_id :: string
  port :: string

datatype outcome =
    Proxy string  \<comment> \<open>handled by a proxy middleware with this \<^verbatim>\<open>target\<close>\<close>
  | Next          \<comment> \<open>\<^verbatim>\<open>next()\<close>\<close>
  | TypeError     \<comment> \<open>the handler throws\<close>

record routed =
  outcome :: outcome
  fetches :: nat  \<comment> \<open>how many times \<^verbatim>\<open>fetch\<close> was called\<close>

text \<open>\<^verbatim>\<open>app.url.split('://')[1]?.split('.')[0]\<close>, line 67.\<close>

definition appSubdomain :: "app \<Rightarrow> string option" where
  "appSubdomain a =
     (case nth_opt (js_split ''://'' (url a)) 1 of
        None \<Rightarrow> None
      | Some rest \<Rightarrow> nth_opt (js_split ''.'' rest) 0)"

text \<open>
  The middleware of lines 54-85. \<open>host\<close> is \<^verbatim>\<open>req.headers.host\<close>, absent when the request
  has no such header (then \<^verbatim>\<open>hostname.split\<close> throws, before the \<^verbatim>\<open>try\<close>). \<open>registry\<close> is
  what \<^verbatim>\<open>fetch\<close> and \<^verbatim>\<open>json()\<close> give if they are called: an error, which the \<^verbatim>\<open>catch\<close>
  logs, or the array of apps. Handing the request to the proxy middleware of line 73
  is the outcome \<open>Proxy\<close> with the \<^verbatim>\<open>target\<close> of line 74; what the proxy library does with
  it is not part of the model.
\<close>

definition apps_middleware :: "string option \<Rightarrow> (fetch_error + app list) \<Rightarrow> routed" where
  "apps_middleware host registry =
     (case host of
        None \<Rightarrow> \<lparr>outcome = TypeError, fetches = 0\<rparr>
      | Some hostname \<Rightarrow>
          let subdomain = nth_opt (js_split ''.'' hostname) 0 in
          if truthy subdomain \<and> subdomain \<noteq> Some ''www'' \<and> subdomain \<noteq> Some ''dashboard''
             \<and> subdomain \<noteq> Some ''platform''
          then
            (case registry of
               Inl e \<Rightarrow> \<lparr>outcome = Next, fetches = 1\<rparr>
             | Inr apps \<Rightarrow>
                 (case find (\<lambda>a. appSubdomain a = subdomain) apps of
                    None \<Rightarrow> \<lparr>outcome = Next, fetches = 1\<rparr>
                  | Some targetApp \<Rightarrow>
                      if status targetApp = ''running''
                      then \<lparr>outcome = Proxy (''http://'' @ container_id targetApp @ '':'' @ port targetApp),
                            fetches = 1\<rparr>
                      else \<lparr>outcome = Next, fetches = 1\<rparr>))
          else \<lparr>outcome = Next, fetches = 0\<rparr>)"

section \<open>System metrics\<close>

text \<open>
  The values that the container engine returns, with the fields that the handler of
  \<^verbatim>\<open>GET /api/system/metrics\<close> reads. Counters are integers (exact in a JavaScript
  number below \<open>2^53\<close>); a field that the engine may leave out is optional.
\<close>

record dockerInfo =
  ServerVersion :: string
  Containers :: int
  ContainersRunning :: int
  ContainersStopped :: int
  MemTotal :: int
  NCPU :: int

record networkSettings =
  NetworkRx :: "int option"
  NetworkTx :: "int option"

record container =
  Names :: "string list"
  MemoryUsage :: "int option"
  NetworkSettings :: "networkSettings option"

record disk_info =
  usage :: int
  human :: string

record systemStats =
  cpuLoad :: int
  disk :: disk_info

text \<open>
  The JSON of the answer, its nested objects flattened: \<open>docker_version\<close> is
  \<^verbatim>\<open>docker.version\<close>, \<open>memory_percent\<close> is \<^verbatim>\<open>resources.memory.percent\<close>, and so on.
\<close>

record snapshot =
  docker_version :: string
  docker_containers :: int
  docker_running :: int
  docker_stopped :: int
  memory_total :: int
  memory_used :: int
  memory_percent :: int
  cpu_cores :: int
  cpu_load :: int
  resources_disk :: disk_info
  network_totalRx :: int
  network_totalTx :: int

datatype exec_error = ExecError

datatype docker_error = DockerError

datatype metrics_response =
    Json snapshot      \<comment> \<open>\<^verbatim>\<open>res.json({...})\<close>, status 200\<close>
  | Status500 string   \<comment> \<open>\<^verbatim>\<open>res.status(500).json({ error })\<close>\<close>

text \<open>\<^verbatim>\<open>x || 0\<close> for a number that may be \<^verbatim>\<open>undefined\<close> or \<^verbatim>\<open>NaN\<close>.\<close>

fun or0 :: "'a::zero option \<Rightarrow> 'a" where
  "or0 None = 0"
| "or0 (Some v) = v"

text \<open>\<^verbatim>\<open>name.includes(sub)\<close>: \<open>sub\<close> occurs somewhere in \<open>name\<close>.\<close>

fun js_includes :: "string \<Rightarrow> string \<Rightarrow> bool" where
  "js_includes [] sub = (sub = [])"
| "js_includes (c # cs) sub = (prefix sub (c # cs) \<or> js_includes cs sub)"

text \<open>\<^verbatim>\<open>trim()\<close>, for the white space of ASCII.\<close>

definition white :: "char \<Rightarrow> bool" where
  "white c = (c \<in> set [CHR '' '', CHR 0x09, CHR 0x0A, CHR 0x0B, CHR 0x0C, CHR 0x0D])"

definition trim :: "string \<Rightarrow> string" where
  "trim s = rev (dropWhile white (rev (dropWhile white s)))"

text \<open>
  \<^verbatim>\<open>getSystemStats\<close>, lines 353-373. \<open>cpuExec\<close> and \<open>diskExec\<close> are what the two calls of
  \<^verbatim>\<open>execPromise\<close> give, an error or the \<^verbatim>\<open>stdout\<close> of the command; the second command
  runs only after the first has succeeded. \<^verbatim>\<open>parseFloat\<close> and \<^verbatim>\<open>parseInt\<close> are the
  built-in functions, \<open>None\<close> for \<^verbatim>\<open>NaN\<close>. \<^verbatim>\<open>Math.round\<close> is \<open>round\<close>: both are
  \<open>\<lfloor>x + 1/2\<rfloor>\<close>. \<^verbatim>\<open>replace('%', '')\<close> removes the first \<^verbatim>\<open>%\<close>.
\<close>

definition getSystemStats ::
  "(string \<Rightarrow> real option) \<Rightarrow> (string \<Rightarrow> int option) \<Rightarrow>
   exec_error + string \<Rightarrow> exec_error + string \<Rightarrow> systemStats" where
  "getSystemStats parseFloat parseInt cpuExec diskExec =
     (case cpuExec of
        Inl e \<Rightarrow> \<lparr>cpuLoad = 0, disk = \<lparr>usage = 0, human = ''N/A''\<rparr>\<rparr>
      | Inr cpuStdout \<Rightarrow>
          let cpu = or0 (parseFloat (trim cpuStdout)) in
          (case diskExec of
             Inl e \<Rightarrow> \<lparr>cpuLoad = 0, disk = \<lparr>usage = 0, human = ''N/A''\<rparr>\<rparr>
           | Inr diskStdout \<Rightarrow>
               let diskUsage = remove1 CHR ''%'' (trim diskStdout) in
               \<lparr>cpuLoad = round cpu,
                disk = \<lparr>usage = or0 (parseInt diskUsage), human = trim diskStdout\<rparr>\<rparr>))"

text \<open>Line 157: the containers one of whose names includes \<^verbatim>\<open>mini-cloud\<close>.\<close>

definition platformContainers :: "container list \<Rightarrow> container list" where
  "platformContainers containers =
     filter (\<lambda>c. list_ex (\<lambda>name. js_includes name ''mini-cloud'') (Names c)) containers"

text \<open>\<^verbatim>\<open>xs.reduce((sum, c) => sum + f(c), 0)\<close>.\<close>

definition reduce_sum :: "('a \<Rightarrow> int) \<Rightarrow> 'a list \<Rightarrow> int" where
  "reduce_sum f xs = foldl (\<lambda>sum c. sum + f c) 0 xs"

text \<open>
  Numbers in JavaScript are IEEE 754 doubles, and line 176 divides and multiplies
  them: each operation gives the double nearest to the exact result, a tie going to
  the one whose last bit is even. \<open>double x\<close> is that nearest double: \<open>binade x\<close> is the
  binary exponent of \<open>x\<close>, doubles in that binade are the multiples of
  \<open>2 ^ (binade x - 52)\<close>, and \<open>rne\<close> rounds to the nearest integer, a tie to the even one.
  The range of the exponent is not modelled: \<open>double\<close> is the result of the machine as
  long as that is neither subnormal nor infinite, which holds for all quotients and
  products of counters below \<open>2^53\<close>. \<^verbatim>\<open>Math.round\<close> is exact: \<open>\<lfloor>x + 1/2\<rfloor>\<close>.
\<close>

definition pow2 :: "int \<Rightarrow> real" where
  "pow2 k = (if 0 \<le> k then 2 ^ nat k else 1 / 2 ^ nat (- k))"

definition rne :: "real \<Rightarrow> int" where
  "rne x =
     (let f = \<lfloor>x\<rfloor> in
      if x - of_int f < 1 / 2 then f
      else if 1 / 2 < x - of_int f then f + 1
      else if even f then f else f + 1)"

definition binade :: "real \<Rightarrow> int" where
  "binade x = \<lfloor>log 2 \<bar>x\<bar>\<rfloor>"

definition double :: "real \<Rightarrow> real" where
  "double x =
     (if x = 0 then 0
      else of_int (rne (x / pow2 (binade x - 52))) * pow2 (binade x - 52))"

definition Math_round :: "real \<Rightarrow> int" where
  "Math_round x = \<lfloor>x + 1 / 2\<rfloor>"

text \<open>
  Line 176, the value of \<^verbatim>\<open>percent\<close>:
  \<^verbatim>\<open>totalMemory > 0 ? Math.round((usedMemory / totalMemory) * 100) : 0\<close>.
\<close>

definition percent :: "int \<Rightarrow> int \<Rightarrow> int" where
  "percent usedMemory totalMemory =
     (if 0 < totalMemory
      then Math_round (double (double (of_int usedMemory / of_int totalMemory) * 100))
      else 0)"

text \<open>
  The handler of \<^verbatim>\<open>GET /api/system/metrics\<close>, lines 147-193. \<open>info\<close> and \<open>listing\<close> are
  what \<^verbatim>\<open>docker.info()\<close> and \<^verbatim>\<open>docker.listContainers\<close> give, an error or the value.
  \<^verbatim>\<open>Promise.all\<close> rejects as soon as one of its promises rejects, and the \<^verbatim>\<open>catch\<close> of
  line 189 answers with status 500; the promise of \<^verbatim>\<open>getSystemStats\<close> never rejects.
\<close>

definition metrics ::
  "(string \<Rightarrow> real option) \<Rightarrow> (string \<Rightarrow> int option) \<Rightarrow>
   docker_error + dockerInfo \<Rightarrow> docker_error + container list \<Rightarrow>
   exec_error + string \<Rightarrow> exec_error + string \<Rightarrow> metrics_response" where
  "metrics parseFloat parseInt info listing cpuExec diskExec =
     (case info of
        Inl e \<Rightarrow> Status500 ''Failed to get system metrics''
      | Inr dockerInfo \<Rightarrow>
          (case listing of
             Inl e \<Rightarrow> Status500 ''Failed to get system metrics''
           | Inr containers \<Rightarrow>
               let systemStats = getSystemStats parseFloat parseInt cpuExec diskExec;
                   pcs = platformContainers containers;
                   totalMemory = MemTotal dockerInfo;
                   usedMemory = reduce_sum (\<lambda>c. or0 (MemoryUsage c)) pcs;
                   totalCpu = NCPU dockerInfo
               in Json
                 \<lparr>docker_version = ServerVersion dockerInfo,
                  docker_containers = Containers dockerInfo,
                  docker_running = ContainersRunning dockerInfo,
                  docker_stopped = ContainersStopped dockerInfo,
                  memory_total = totalMemory,
                  memory_used = usedMemory,
                  memory_percent = percent usedMemory totalMemory,
                  cpu_cores = totalCpu,
                  cpu_load = cpuLoad systemStats,
                  resources_disk = disk systemStats,
                  network_totalRx =
                    reduce_sum (\<lambda>c. or0 (case NetworkSettings c of None \<Rightarrow> None
                                           | Some n \<Rightarrow> NetworkRx n)) pcs,
                  network_totalTx =
                    reduce_sum (\<lambda>c. or0 (case NetworkSettings c of None \<Rightarrow> None
                                           | Some n \<Rightarrow> NetworkTx n)) pcs\<rparr>))"

text \<open>
  A container follows the naming convention of the platform when one of its names
  contains \<^verbatim>\<open>mini-cloud\<close>.
\<close>

definition platform_owned :: "container \<Rightarrow> bool" where
  "platform_owned c \<longleftrightarrow> (\<exists>name \<in> set (Names c). \<exists>p q. name = p @ ''mini-cloud'' @ q)"

section \<open>Publishing\<close>

lemma forEach_send_sent:
  "sent (forEach_send wss m h) = sent h @ map (\<lambda>w. (w, m)) (filter (\<lambda>w. ready h w = OPEN) wss)"
  by (induction wss arbitrary: h) (simp_all add: send_def)

lemma forEach_send_rest:
  "logSubscribers (forEach_send wss m h) = logSubscribers h"
  "buildLogs (forEach_send wss m h) = buildLogs h"
  "ready (forEach_send wss m h) = ready h"
  "closeHandler (forEach_send wss m h) = closeHandler h"
  by (induction wss arbitrary: h) (simp_all add: send_def)

lemma publish_sent:
  "sent (publish S L now h) =
     sent h @ map (\<lambda>w. (w, Live L now)) (filter (\<lambda>w. ready h w = OPEN) (subscribers_of h S))"
  by (simp add: publish_def broadcastLogs_def subscribers_of_def forEach_send_sent
      split: option.splits)

lemma publish_rest:
  "logSubscribers (publish S L now h) = logSubscribers h"
  "ready (publish S L now h) = ready h"
  "closeHandler (publish S L now h) = closeHandler h"
  by (simp_all add: publish_def broadcastLogs_def forEach_send_rest split: option.splits)

lemma publish_buildLogs:
  "buildLogs (publish S L now h) = (buildLogs h)(S \<mapsto> buffer_of h S @ [L])"
  by (simp add: publish_def broadcastLogs_def buffer_of_def forEach_send_rest
      split: option.splits)

lemma publish_subscribers_of: "subscribers_of (publish S L now h) T = subscribers_of h T"
  by (simp add: subscribers_of_def publish_rest)

lemma received_append:
  "sent h' = sent h @ xs \<Longrightarrow> received w h' = received w h @ map snd (filter (\<lambda>p. fst p = w) xs)"
  by (simp add: received_def)

lemma deliveries_to:
  "map snd (filter (\<lambda>p. fst p = w) (map (\<lambda>v. (v, m)) vs)) = replicate (count_list vs w) m"
  by (induction vs) simp_all

lemma received_publish:
  "received w (publish S L now h) =
     received w h @
     replicate (count_list (filter (\<lambda>v. ready h v = OPEN) (subscribers_of h S)) w) (Live L now)"
  using received_append [OF publish_sent] by (simp add: deliveries_to)

lemma count_list_distinct:
  "distinct vs \<Longrightarrow> count_list vs w = (if w \<in> set vs then 1 else 0)"
  by (induction vs) auto

text \<open>
  Claim C1. \<open>publish S L\<close> appends \<open>L\<close> to the buffer of \<open>S\<close> and leaves every other buffer
  and the registry as they were. It sends \<open>L\<close> once for every entry of the subscriber
  list of \<open>S\<close> whose connection is open, in the order of the list, and sends nothing
  else: a connection that is not registered to \<open>S\<close> (so any that is registered to
  other subjects only) and a registered connection that is not open receive nothing,
  and a registered open connection receives the line. No branch of \<open>publish\<close> is
  an error.
\<close>

theorem publish_delivers_to_open_subscribers:
  "buildLogs (publish S L now h) S = Some (buffer_of h S @ [L])
   \<and> (\<forall>T. T \<noteq> S \<longrightarrow> buildLogs (publish S L now h) T = buildLogs h T)
   \<and> logSubscribers (publish S L now h) = logSubscribers h
   \<and> sent (publish S L now h) =
       sent h @ map (\<lambda>w. (w, Live L now)) (filter (\<lambda>w. ready h w = OPEN) (subscribers_of h S))
   \<and> (\<forall>w. w \<notin> set (subscribers_of h S) \<longrightarrow> received w (publish S L now h) = received w h)
   \<and> (\<forall>w. ready h w \<noteq> OPEN \<longrightarrow> received w (publish S L now h) = received w h)
   \<and> (\<forall>w. w \<in> set (subscribers_of h S) \<and> ready h w = OPEN \<longrightarrow>
          (\<exists>n. 0 < n \<and> received w (publish S L now h) = received w h @ replicate n (Live L now)))
   \<and> (\<forall>w. distinct (subscribers_of h S) \<and> w \<in> set (subscribers_of h S) \<and> ready h w = OPEN \<longrightarrow>
          received w (publish S L now h) = received w h @ [Live L now])"
proof (intro conjI allI impI)
  show "buildLogs (publish S L now h) S = Some (buffer_of h S @ [L])"
    by (simp add: publish_buildLogs)
  show "T \<noteq> S \<Longrightarrow> buildLogs (publish S L now h) T = buildLogs h T" for T
    by (simp add: publish_buildLogs)
  show "logSubscribers (publish S L now h) = logSubscribers h"
    by (rule publish_rest)
  show "sent (publish S L now h) =
          sent h @ map (\<lambda>w. (w, Live L now)) (filter (\<lambda>w. ready h w = OPEN) (subscribers_of h S))"
    by (rule publish_sent)
  show "w \<notin> set (subscribers_of h S) \<Longrightarrow> received w (publish S L now h) = received w h" for w
    by (simp add: received_publish count_list_0_iff)
  show "ready h w \<noteq> OPEN \<Longrightarrow> received w (publish S L now h) = received w h" for w
    by (simp add: received_publish count_list_0_iff)
  show "\<exists>n. 0 < n \<and> received w (publish S L now h) = received w h @ replicate n (Live L now)"
    if "w \<in> set (subscribers_of h S) \<and> ready h w = OPEN" for w
  proof -
    let ?n = "count_list (filter (\<lambda>v. ready h v = OPEN) (subscribers_of h S)) w"
    from that have "w \<in> set (filter (\<lambda>v. ready h v = OPEN) (subscribers_of h S))" by simp
    then have "?n \<noteq> 0" by (simp only: count_list_0_iff not_not)
    then have "0 < ?n" by simp
    then show ?thesis using received_publish by blast
  qed
  show "received w (publish S L now h) = received w h @ [Live L now]"
    if "distinct (subscribers_of h S) \<and> w \<in> set (subscribers_of h S) \<and> ready h w = OPEN" for w
    using that by (simp add: received_publish count_list_distinct)
qed

theorem publish_delivers_witness:
  "(let h = hub_run [Connection 1 (Some ''app1'') None, Connection 2 (Some ''app1'') None,
              Connection 3 (Some ''app2'') None, ReadyState 2 CLOSED] hub_init;
        h' = publish ''app1'' ''line'' 7 h
    in buildLogs h' ''app1'' = Some [''line''] \<and> buildLogs h' ''app2'' = None
       \<and> received 1 h' = [Live ''line'' 7] \<and> received 2 h' = [] \<and> received 3 h' = []
       \<and> sent h' = [(1, Live ''line'' 7)])"
  using publish_delivers_to_open_subscribers [of "''app1''" "''line''" 7
      "hub_run [Connection 1 (Some ''app1'') None, Connection 2 (Some ''app1'') None,
              Connection 3 (Some ''app2'') None, ReadyState 2 CLOSED] hub_init"]
  by (simp add: connection_def hub_init_def Let_def subscribers_of_def buffer_of_def received_def)

section \<open>Subscribing and unsubscribing\<close>

lemma subscribers_of_connection:
  "a \<noteq> [] \<Longrightarrow> subscribers_of (connection w (Some a) b h) T =
     (if T = a then subscribers_of h a @ [w] else subscribers_of h T)"
  by (simp add: connection_def subscribers_of_def Let_def send_def split: option.splits)

lemma connection_falsy: "\<not> truthy a \<Longrightarrow> connection w a b h = h"
  by (simp add: connection_def)

lemma sent_connection:
  "a \<noteq> [] \<Longrightarrow> sent (connection w (Some a) b h) =
     sent h @ (case get_opt (buildLogs h) b of None \<Rightarrow> [] | Some ls \<Rightarrow> [(w, Replay ls)])"
  by (simp add: connection_def Let_def send_def split: option.splits)

lemma subscribers_of_unsubscribe:
  "subscribers_of (unsubscribe S c h) T =
     (if T = S then remove1 c (subscribers_of h S) else subscribers_of h T)"
  by (simp add: unsubscribe_def subscribers_of_def remove1_idem split: option.splits)

lemma unsubscribe_absent: "c \<notin> set (subscribers_of h S) \<Longrightarrow> unsubscribe S c h = h"
  by (simp add: unsubscribe_def subscribers_of_def split: option.splits)

lemma sent_unsubscribe: "sent (unsubscribe S c h) = sent h"
  by (simp add: unsubscribe_def split: option.splits)

lemma sent_on_close: "sent (on_close w h) = sent h"
  by (simp add: on_close_def sent_unsubscribe split: option.splits)

lemma subscribers_of_on_close:
  "set (subscribers_of (on_close w h) T) \<subseteq> set (subscribers_of h T)"
  using set_remove1_subset [of w] by (auto simp: on_close_def subscribers_of_unsubscribe split: option.splits)

lemma step_keeps_out:
  assumes "c \<notin> set (subscribers_of h S)" and "\<forall>b. e \<noteq> Connection c (Some S) b"
  shows "c \<notin> set (subscribers_of (hub_step e h) S)"
proof (cases e)
  case (Connection w a b)
  show ?thesis
  proof (cases "truthy a")
    case True
    then obtain s where a: "a = Some s" "s \<noteq> []" by (cases a) auto
    with assms Connection show ?thesis by (auto simp: subscribers_of_connection)
  next
    case False
    with assms Connection show ?thesis by (simp add: connection_falsy)
  qed
next
  case (Close w)
  with assms subscribers_of_on_close [of w h S] show ?thesis by auto
next
  case (Publish a l t)
  with assms show ?thesis by (simp add: publish_subscribers_of)
next
  case (ReadyState w r)
  with assms show ?thesis by (simp add: subscribers_of_def)
next
  case (Delete a)
  with assms show ?thesis by (simp add: subscribers_of_def)
qed

lemma run_keeps_out:
  "c \<notin> set (subscribers_of h S) \<Longrightarrow> \<forall>b. Connection c (Some S) b \<notin> set es \<Longrightarrow>
   c \<notin> set (subscribers_of (hub_run es h) S)"
proof (induction es arbitrary: h)
  case Nil
  then show ?case by simp
next
  case (Cons e es)
  from Cons.prems have "\<forall>b. e \<noteq> Connection c (Some S) b" by auto
  with Cons.prems(1) have "c \<notin> set (subscribers_of (hub_step e h) S)" by (rule step_keeps_out)
  moreover from Cons.prems have "\<forall>b. Connection c (Some S) b \<notin> set es" by auto
  ultimately show ?case using Cons.IH by simp
qed

lemma step_keeps_distinct:
  assumes "\<forall>S. distinct (subscribers_of h S) \<and> set (subscribers_of h S) \<subseteq> U"
    and "set (conn_ids [e]) \<inter> U = {}"
  shows "\<forall>S. distinct (subscribers_of (hub_step e h) S)
           \<and> set (subscribers_of (hub_step e h) S) \<subseteq> U \<union> set (conn_ids [e])"
proof (cases e)
  case (Connection w a b)
  show ?thesis
  proof (cases "truthy a")
    case True
    then obtain s where a: "a = Some s" "s \<noteq> []" by (cases a) auto
    from assms(2) Connection have "w \<notin> U" by simp
    with assms(1) have "w \<notin> set (subscribers_of h s)" by blast
    with assms(1) Connection a show ?thesis by (auto simp: subscribers_of_connection)
  next
    case False
    with assms(1) Connection show ?thesis by (auto simp: connection_falsy)
  qed
next
  case (Close w)
  show ?thesis
  proof (cases "closeHandler h w")
    case None
    with assms(1) Close show ?thesis by (auto simp: on_close_def)
  next
    case (Some a)
    with assms(1) Close show ?thesis
      using set_remove1_subset [of w]
      by (auto simp: on_close_def subscribers_of_unsubscribe)
  qed
next
  case (Publish a l t)
  with assms(1) show ?thesis by (auto simp: publish_subscribers_of)
next
  case (ReadyState w r)
  with assms(1) show ?thesis by (auto simp: subscribers_of_def)
next
  case (Delete a)
  with assms(1) show ?thesis by (auto simp: subscribers_of_def)
qed

lemma conn_ids_Cons: "conn_ids (e # es) = conn_ids [e] @ conn_ids es"
  by (cases e) simp_all

lemma run_keeps_distinct:
  "\<forall>S. distinct (subscribers_of h S) \<and> set (subscribers_of h S) \<subseteq> U \<Longrightarrow>
   distinct (conn_ids es) \<Longrightarrow> set (conn_ids es) \<inter> U = {} \<Longrightarrow>
   \<forall>S. distinct (subscribers_of (hub_run es h) S)
       \<and> set (subscribers_of (hub_run es h) S) \<subseteq> U \<union> set (conn_ids es)"
proof (induction es arbitrary: h U)
  case Nil
  then show ?case by simp
next
  case (Cons e es)
  let ?U = "U \<union> set (conn_ids [e])"
  from Cons.prems(2,3) have e: "set (conn_ids [e]) \<inter> U = {}"
    and d: "distinct (conn_ids es)" and i: "set (conn_ids es) \<inter> ?U = {}"
    by (auto simp: conn_ids_Cons [of e es])
  from Cons.prems(1) e have "\<forall>S. distinct (subscribers_of (hub_step e h) S)
           \<and> set (subscribers_of (hub_step e h) S) \<subseteq> ?U"
    by (rule step_keeps_distinct)
  from Cons.IH [OF this d i] show ?case
    by (auto simp: conn_ids_Cons [of e es])
qed

lemma reachable_distinct:
  "distinct (conn_ids es) \<Longrightarrow> distinct (subscribers_of (hub_run es hub_init) S)"
  using run_keeps_distinct [of hub_init "{}" es]
  by (simp add: subscribers_of_def hub_init_def)

text \<open>
  Claim C7. A connection object arrives once, so in every hub that events lead to from
  the start no subscriber list holds a connection twice (\<open>reachable_distinct\<close>). In such
  a hub, once \<open>unsubscribe S c\<close> has run, \<open>c\<close> is out of the list of \<open>S\<close>, and whatever
  events follow (other connections arriving, connections closing, lines published,
  ready states changing, buffers purged) short of \<open>c\<close> arriving again for \<open>S\<close>, a publish
  to \<open>S\<close> sends nothing to \<open>c\<close>. A second \<open>unsubscribe S c\<close> returns the hub unchanged.
\<close>

theorem unsubscribe_stops_delivery:
  assumes "distinct (subscribers_of h S)" and "\<forall>b. Connection c (Some S) b \<notin> set es"
  shows "c \<notin> set (subscribers_of (unsubscribe S c h) S)
     \<and> received c (publish S L now (hub_run es (unsubscribe S c h))) =
         received c (hub_run es (unsubscribe S c h))
     \<and> unsubscribe S c (unsubscribe S c h) = unsubscribe S c h"
proof -
  from assms(1) have out: "c \<notin> set (subscribers_of (unsubscribe S c h) S)"
    by (simp add: subscribers_of_unsubscribe)
  then have "c \<notin> set (subscribers_of (hub_run es (unsubscribe S c h)) S)"
    using assms(2) by (rule run_keeps_out)
  then have "received c (publish S L now (hub_run es (unsubscribe S c h))) =
         received c (hub_run es (unsubscribe S c h))"
    by (simp add: received_publish count_list_0_iff)
  moreover from out have "unsubscribe S c (unsubscribe S c h) = unsubscribe S c h"
    by (rule unsubscribe_absent)
  ultimately show ?thesis using out by simp
qed

theorem unsubscribe_stops_delivery_witness: "(let h = hub_run [Connection 1 (Some ''app1'') None, Connection 2 (Some ''app1'') None] hub_init;
      h' = unsubscribe ''app1'' 1 h;
      h'' = hub_run [Publish ''app1'' ''next'' 9, Connection 3 (Some ''app1'') None] h'
   in distinct (subscribers_of h ''app1'') \<and> subscribers_of h' ''app1'' = [2]
      \<and> received 1 (publish ''app1'' ''last'' 11 h'') = []
      \<and> received 2 (publish ''app1'' ''last'' 11 h'') = [Live ''next'' 9, Live ''last'' 11]
      \<and> unsubscribe ''app1'' 1 h' = h')"
  using unsubscribe_stops_delivery [of "hub_run [Connection 1 (Some ''app1'') None, Connection 2 (Some ''app1'') None] hub_init"
     "''app1''" 1 "[Publish ''app1'' ''next'' 9, Connection 3 (Some ''app1'') None]" "''last''" 11]
  by (simp add: connection_def publish_def broadcastLogs_def hub_init_def subscribers_of_def Let_def
       received_def send_def on_close_def unsubscribe_def)


lemma step_appends_live:
  assumes "\<forall>a b. e \<noteq> Connection w a b"
  shows "\<exists>ms. received w (hub_step e h) = received w h @ ms \<and> list_all live ms"
proof (cases e)
  case (Connection v a b)
  with assms have vw: "v \<noteq> w" by auto
  show ?thesis
  proof (cases "truthy a")
    case True
    then obtain s where a: "a = Some s" "s \<noteq> []" by (cases a) auto
    with Connection vw show ?thesis
      by (simp add: received_def sent_connection split: option.splits)
  next
    case False
    with Connection show ?thesis by (simp add: connection_falsy)
  qed
next
  case (Close v)
  then show ?thesis by (simp add: received_def sent_on_close)
next
  case (Publish a l t)
  then show ?thesis by (simp add: received_publish list_all_iff)
next
  case (ReadyState v r)
  then show ?thesis by (simp add: received_def)
next
  case (Delete a)
  then show ?thesis by (simp add: received_def)
qed

lemma run_appends_live:
  "\<forall>a b. Connection w a b \<notin> set es \<Longrightarrow>
   \<exists>ms. received w (hub_run es h) = received w h @ ms \<and> list_all live ms"
proof (induction es arbitrary: h)
  case Nil
  then show ?case by simp
next
  case (Cons e es)
  from Cons.prems have "\<forall>a b. e \<noteq> Connection w a b" by auto
  then obtain ms where ms: "received w (hub_step e h) = received w h @ ms" "list_all live ms"
    using step_appends_live by blast
  from Cons.prems have "\<forall>a b. Connection w a b \<notin> set es" by auto
  then obtain ns where ns: "received w (hub_run es (hub_step e h)) = received w (hub_step e h) @ ns"
      "list_all live ns"
    using Cons.IH by blast
  from ms ns have "received w (hub_run (e # es) h) = received w h @ (ms @ ns) \<and> list_all live (ms @ ns)"
    by simp
  then show ?case by blast
qed

text \<open>
  Claim C8, as the code has it. The handler registers only when \<^verbatim>\<open>appId\<close> is truthy,
  so the parameter must be present and not empty. Then the new connection \<open>w\<close> (nothing
  has been sent to it yet) is appended to the subscriber list of \<open>appId\<close>. If
  \<^verbatim>\<open>buildLogs\<close> has an entry for \<^verbatim>\<open>buildId\<close>, that buffer is sent to \<open>w\<close> as one replay message
  within the handler; whatever events follow, the replay stays the first message that
  \<open>w\<close> has been sent and every later one is a live push. With no entry nothing is sent
  by the handler, and everything \<open>w\<close> is sent later is a live push.
\<close>

theorem connection_registers_and_replays:
  assumes "a \<noteq> []" and "received w h = []" and "\<forall>x y. Connection w x y \<notin> set es"
  shows "subscribers_of (connection w (Some a) b h) a = subscribers_of h a @ [w]
     \<and> (\<forall>ls. get_opt (buildLogs h) b = Some ls \<longrightarrow>
           sent (connection w (Some a) b h) = sent h @ [(w, Replay ls)]
           \<and> received w (connection w (Some a) b h) = [Replay ls]
           \<and> take 1 (received w (hub_run es (connection w (Some a) b h))) = [Replay ls]
           \<and> list_all live (drop 1 (received w (hub_run es (connection w (Some a) b h)))))
     \<and> (get_opt (buildLogs h) b = None \<longrightarrow>
           sent (connection w (Some a) b h) = sent h
           \<and> list_all live (received w (hub_run es (connection w (Some a) b h))))"
proof -
  obtain ms where ms:
    "received w (hub_run es (connection w (Some a) b h)) = received w (connection w (Some a) b h) @ ms"
    "list_all live ms"
    using run_appends_live [OF assms(3)] by blast
  have reg: "subscribers_of (connection w (Some a) b h) a = subscribers_of h a @ [w]"
    using assms(1) by (simp add: subscribers_of_connection)
  have some: "sent (connection w (Some a) b h) = sent h @ [(w, Replay ls)]
           \<and> received w (connection w (Some a) b h) = [Replay ls]
           \<and> take 1 (received w (hub_run es (connection w (Some a) b h))) = [Replay ls]
           \<and> list_all live (drop 1 (received w (hub_run es (connection w (Some a) b h))))"
    if "get_opt (buildLogs h) b = Some ls" for ls
  proof -
    from that assms(1) have s: "sent (connection w (Some a) b h) = sent h @ [(w, Replay ls)]"
      by (simp add: sent_connection)
    with assms(2) have r: "received w (connection w (Some a) b h) = [Replay ls]"
      by (simp add: received_def)
    from s r ms show ?thesis by simp
  qed
  have none: "sent (connection w (Some a) b h) = sent h
           \<and> list_all live (received w (hub_run es (connection w (Some a) b h)))"
    if "get_opt (buildLogs h) b = None"
  proof -
    from that assms(1) have s: "sent (connection w (Some a) b h) = sent h"
      by (simp add: sent_connection)
    with assms(2) have "received w (connection w (Some a) b h) = []"
      by (simp add: received_def)
    with s ms show ?thesis by simp
  qed
  from reg some none show ?thesis by blast
qed

theorem connection_registers_and_replays_witness: "(let h = hub_step (Publish ''b1'' ''line'' 7) hub_init;
      h' = connection 1 (Some ''app1'') (Some ''b1'') h;
      h'' = hub_run [Publish ''app1'' ''next'' 9, Close 1, Publish ''app1'' ''last'' 11] h'
   in subscribers_of h' ''app1'' = [1] \<and> received 1 h' = [Replay [''line'']]
      \<and> received 1 h'' = [Replay [''line''], Live ''next'' 9])"
  using connection_registers_and_replays [of "''app1''" 1 "hub_step (Publish ''b1'' ''line'' 7) hub_init"
     "[Publish ''app1'' ''next'' 9, Close 1, Publish ''app1'' ''last'' 11]" "Some ''b1''"]
  by (simp add: connection_def publish_def broadcastLogs_def hub_init_def subscribers_of_def Let_def
       received_def send_def on_close_def unsubscribe_def)


text \<open>
  The claim C8 as stated fails for a request that has the parameter with an empty
  value, \<^verbatim>\<open>/ws/logs?appId=&buildId=b1\<close>: \<^verbatim>\<open>searchParams.get('appId')\<close> is the empty string,
  which is falsy, so the handler neither registers the connection nor replays the
  buffer of \<^verbatim>\<open>b1\<close>.
\<close>

theorem connection_empty_appId_not_registered: "(let h = hub_step (Publish ''b1'' ''line'' 7) hub_init
   in get_opt (buildLogs h) (Some ''b1'') = Some [''line'']
      \<and> subscribers_of (connection 1 (Some []) (Some ''b1'') h) [] = []
      \<and> sent (connection 1 (Some []) (Some ''b1'') h) = [])"
  by (simp add: connection_def publish_def broadcastLogs_def hub_init_def subscribers_of_def)


text \<open>
  Claim C10. When the query has no \<^verbatim>\<open>appId\<close> (\<^verbatim>\<open>searchParams.get\<close> gives \<^verbatim>\<open>null\<close>), and
  also when it is empty, the handler returns the hub exactly as it was, whatever
  \<^verbatim>\<open>buildId\<close> is: no subscriber is registered, nothing is sent, no buffer changes.
\<close>

theorem connection_without_appId:
  "connection w None b h = h \<and> connection w (Some []) b h = h"
  by (simp add: connection_def)


section \<open>Routing\<close>

lemma prefix_dot: "prefix ''.'' (c # cs) \<longleftrightarrow> c = CHR ''.''"
  by auto

lemma split_go_dot_first:
  "nth_opt (js_split_go ''.'' 0 cur s) 0 = Some (cur @ takeWhile (\<lambda>c. c \<noteq> CHR ''.'') s)"
  by (induction s arbitrary: cur) (simp_all add: prefix_dot)

lemma split_dot_first:
  "nth_opt (js_split ''.'' s) 0 = Some (takeWhile (\<lambda>c. c \<noteq> CHR ''.'') s)"
  by (simp add: js_split_def split_go_dot_first)

text \<open>
  Claim C2. The leftmost label of a host name is what precedes its first dot. When it
  is \<^verbatim>\<open>www\<close>, \<^verbatim>\<open>dashboard\<close>, \<^verbatim>\<open>platform\<close> or empty, the middleware calls \<^verbatim>\<open>fetch\<close> no
  times and ends in \<^verbatim>\<open>next()\<close>, whatever the registry would have answered.
\<close>

theorem reserved_label_no_lookup:
  assumes "takeWhile (\<lambda>c. c \<noteq> CHR ''.'') hostname \<in> {''www'', ''dashboard'', ''platform'', ''''}"
  shows "apps_middleware (Some hostname) registry = \<lparr>outcome = Next, fetches = 0\<rparr>"
  using assms by (auto simp: apps_middleware_def split_dot_first)

theorem reserved_label_no_lookup_witness:
  "apps_middleware (Some ''www.example.com'') (Inr [\<lparr>url = ''http://www.example.com'', status = ''running'', container_id = ''c1'', port = ''80''\<rparr>]) = \<lparr>outcome = Next, fetches = 0\<rparr>
   \<and> apps_middleware (Some ''dashboard.example.com'') (Inl FetchError) = \<lparr>outcome = Next, fetches = 0\<rparr>
   \<and> apps_middleware (Some ''platform'') (Inr []) = \<lparr>outcome = Next, fetches = 0\<rparr>
   \<and> apps_middleware (Some ''.example.com'') (Inr []) = \<lparr>outcome = Next, fetches = 0\<rparr>"
  using reserved_label_no_lookup [of "''www.example.com''" "Inr [\<lparr>url = ''http://www.example.com'', status = ''running'', container_id = ''c1'', port = ''80''\<rparr>]"]
    reserved_label_no_lookup [of "''dashboard.example.com''" "Inl FetchError"]
    reserved_label_no_lookup [of "''platform''" "Inr []"]
    reserved_label_no_lookup [of "''.example.com''" "Inr []"]
  by simp

lemma find_first:
  "(\<forall>a \<in> set pre. \<not> P a) \<Longrightarrow> P t \<Longrightarrow> find P (pre @ t # post) = Some t"
  by (induction pre) simp_all

text \<open>
  Claim C3, as the code has it. Let \<open>L\<close> be the leftmost label of the host name, not
  reserved and not empty. \<^verbatim>\<open>apps.find\<close> takes the first record whose label is \<open>L\<close>,
  whatever its status, and that record alone decides: if its status is \<^verbatim>\<open>running\<close> the
  request is proxied to its \<^verbatim>\<open>http://container_id:port\<close>, otherwise the request falls
  through. When no record has the label \<open>L\<close>, or the registry cannot be read, the
  request falls through. A proxied request always goes to a record of the registry
  whose label is \<open>L\<close> and whose status is \<^verbatim>\<open>running\<close>.
\<close>

theorem first_match_decides:
  assumes "L = takeWhile (\<lambda>c. c \<noteq> CHR ''.'') hostname"
    and "L \<notin> {''www'', ''dashboard'', ''platform'', ''''}"
  shows "(\<forall>pre t post. apps = pre @ t # post \<and> (\<forall>a \<in> set pre. appSubdomain a \<noteq> Some L)
             \<and> appSubdomain t = Some L \<longrightarrow>
           apps_middleware (Some hostname) (Inr apps) =
             \<lparr>outcome = (if status t = ''running''
                          then Proxy (''http://'' @ container_id t @ '':'' @ port t) else Next),
              fetches = 1\<rparr>)
     \<and> ((\<forall>a \<in> set apps. appSubdomain a \<noteq> Some L) \<longrightarrow>
           apps_middleware (Some hostname) (Inr apps) = \<lparr>outcome = Next, fetches = 1\<rparr>)
     \<and> (\<forall>tgt. outcome (apps_middleware (Some hostname) (Inr apps)) = Proxy tgt \<longrightarrow>
           (\<exists>t \<in> set apps. appSubdomain t = Some L \<and> status t = ''running''
               \<and> tgt = ''http://'' @ container_id t @ '':'' @ port t))
     \<and> apps_middleware (Some hostname) (Inl e) = \<lparr>outcome = Next, fetches = 1\<rparr>"
proof -
  have sub: "nth_opt (js_split ''.'' hostname) 0 = Some L"
    using assms(1) by (simp add: split_dot_first)
  have go: "apps_middleware (Some hostname) reg =
      (case reg of
         Inl e \<Rightarrow> \<lparr>outcome = Next, fetches = 1\<rparr>
       | Inr apps \<Rightarrow>
          (case find (\<lambda>a. appSubdomain a = Some L) apps of
             None \<Rightarrow> \<lparr>outcome = Next, fetches = 1\<rparr>
           | Some t \<Rightarrow> \<lparr>outcome = (if status t = ''running''
                          then Proxy (''http://'' @ container_id t @ '':'' @ port t) else Next),
              fetches = 1\<rparr>))" for reg
    using assms(2) by (simp add: apps_middleware_def sub split: sum.splits option.splits)
  have a: "apps_middleware (Some hostname) (Inr apps) =
             \<lparr>outcome = (if status t = ''running''
                          then Proxy (''http://'' @ container_id t @ '':'' @ port t) else Next),
              fetches = 1\<rparr>"
    if "apps = pre @ t # post \<and> (\<forall>a \<in> set pre. appSubdomain a \<noteq> Some L) \<and> appSubdomain t = Some L"
    for pre t post
  proof -
    from that have "find (\<lambda>a. appSubdomain a = Some L) apps = Some t"
      by (simp add: find_first)
    then show ?thesis by (simp add: go)
  qed
  have b: "apps_middleware (Some hostname) (Inr apps) = \<lparr>outcome = Next, fetches = 1\<rparr>"
    if "\<forall>a \<in> set apps. appSubdomain a \<noteq> Some L"
  proof -
    from that have "find (\<lambda>a. appSubdomain a = Some L) apps = None"
      by (simp add: find_None_iff)
    then show ?thesis by (simp add: go)
  qed
  have c: "\<exists>t \<in> set apps. appSubdomain t = Some L \<and> status t = ''running''
               \<and> tgt = ''http://'' @ container_id t @ '':'' @ port t"
    if "outcome (apps_middleware (Some hostname) (Inr apps)) = Proxy tgt" for tgt
  proof (cases "find (\<lambda>a. appSubdomain a = Some L) apps")
    case None
    with that show ?thesis by (simp add: go)
  next
    case (Some t)
    then have "t \<in> set apps" "appSubdomain t = Some L"
      by (auto simp: find_Some_iff)
    moreover from Some that have "status t = ''running'' \<and> tgt = ''http://'' @ container_id t @ '':'' @ port t"
      by (simp add: go split: if_splits)
    ultimately show ?thesis by blast
  qed
  have d: "apps_middleware (Some hostname) (Inl e) = \<lparr>outcome = Next, fetches = 1\<rparr>"
    by (simp add: go)
  from a b c d show ?thesis by blast
qed

theorem first_match_decides_witness:
  "(let r1 = \<lparr>url = ''http://bar.example.com'', status = ''running'', container_id = ''c1'', port = ''3000''\<rparr>;
        r2 = \<lparr>url = ''http://foo.example.com'', status = ''running'', container_id = ''c2'', port = ''8080''\<rparr>;
        r3 = \<lparr>url = ''http://foo.example.com'', status = ''stopped'', container_id = ''c3'', port = ''8080''\<rparr>
    in apps_middleware (Some ''foo.example.com'') (Inr [r1, r2, r3]) = \<lparr>outcome = Proxy ''http://c2:8080'', fetches = 1\<rparr>
     \<and> apps_middleware (Some ''foo.example.com'') (Inr [r1, r3, r2]) = \<lparr>outcome = Next, fetches = 1\<rparr>
     \<and> apps_middleware (Some ''foo.example.com'') (Inr [r1]) = \<lparr>outcome = Next, fetches = 1\<rparr>)"
  using first_match_decides [of "''foo''" "''foo.example.com''"
     "[\<lparr>url = ''http://bar.example.com'', status = ''running'', container_id = ''c1'', port = ''3000''\<rparr>,
       \<lparr>url = ''http://foo.example.com'', status = ''running'', container_id = ''c2'', port = ''8080''\<rparr>,
       \<lparr>url = ''http://foo.example.com'', status = ''stopped'', container_id = ''c3'', port = ''8080''\<rparr>]" FetchError]
  by (simp add: apps_middleware_def appSubdomain_def js_split_def Let_def)
text \<open>
  The claim C3 as stated fails when the first record with the label is not running
  and a later one is: the later record has the label \<^verbatim>\<open>foo\<close> and status \<^verbatim>\<open>running\<close>, and
  the request for \<^verbatim>\<open>foo.example.com\<close> falls through.
\<close>

theorem later_running_record_not_selected:
  "(let r1 = \<lparr>url = ''http://foo.one.example'', status = ''stopped'', container_id = ''c1'', port = ''3000''\<rparr>;
        r2 = \<lparr>url = ''http://foo.two.example'', status = ''running'', container_id = ''c2'', port = ''3000''\<rparr>
    in appSubdomain r2 = Some ''foo'' \<and> status r2 = ''running''
       \<and> apps_middleware (Some ''foo.example.com'') (Inr [r1, r2]) = \<lparr>outcome = Next, fetches = 1\<rparr>)"
  by (simp add: apps_middleware_def appSubdomain_def js_split_def Let_def)


section \<open>Metrics\<close>

lemma reduce_sum_foldl: "foldl (\<lambda>sum c. sum + f c) (acc::int) xs = acc + sum_list (map f xs)"
  by (induction xs arbitrary: acc) simp_all

lemma reduce_sum_sum_list: "reduce_sum f xs = sum_list (map f xs)"
  by (simp add: reduce_sum_def reduce_sum_foldl)

lemma js_includes_iff: "js_includes s sub \<longleftrightarrow> (\<exists>p q. s = p @ sub @ q)"
proof (induction s)
  case Nil
  then show ?case by auto
next
  case (Cons c cs)
  show ?case
  proof
    assume "js_includes (c # cs) sub"
    then consider "prefix sub (c # cs)" | "js_includes cs sub" by auto
    then show "\<exists>p q. c # cs = p @ sub @ q"
    proof cases
      case 1
      then obtain q where "c # cs = sub @ q" by (auto simp: prefix_def)
      then have "c # cs = [] @ sub @ q" by simp
      then show ?thesis by blast
    next
      case 2
      with Cons.IH obtain p q where "cs = p @ sub @ q" by blast
      then have "c # cs = (c # p) @ sub @ q" by simp
      then show ?thesis by blast
    qed
  next
    assume "\<exists>p q. c # cs = p @ sub @ q"
    then obtain p q where pq: "c # cs = p @ sub @ q" by blast
    show "js_includes (c # cs) sub"
    proof (cases p)
      case Nil
      with pq have "prefix sub (c # cs)" by (simp add: prefix_def)
      then show ?thesis by simp
    next
      case (Cons d p')
      with pq have "cs = p' @ sub @ q" by simp
      with Cons.IH have "js_includes cs sub" by blast
      then show ?thesis by simp
    qed
  qed
qed

lemma platformContainers_filter: "platformContainers cs = filter platform_owned cs"
  unfolding platformContainers_def
  by (rule filter_cong) (simp_all only: platform_owned_def list_ex_iff js_includes_iff)


lemma pow2_powr: "pow2 k = 2 powr (of_int k)"
proof (cases "0 \<le> k")
  case True
  then have "2 powr (of_int k) = (2::real) powr (real (nat k))" by simp
  also have "\<dots> = 2 ^ nat k" by (simp only: powr_realpow zero_less_numeral)
  finally show ?thesis using True by (simp add: pow2_def)
next
  case False
  then have "2 powr (of_int k) = (2::real) powr (- real (nat (- k)))" by simp
  also have "\<dots> = 1 / 2 powr (real (nat (- k)))" by (simp only: powr_minus_divide)
  also have "\<dots> = 1 / 2 ^ nat (- k)" by (simp only: powr_realpow zero_less_numeral)
  finally show ?thesis using False by (simp add: pow2_def)
qed

lemma pow2_pos: "0 < pow2 k"
  by (simp add: pow2_powr)

lemma pow2_add: "pow2 (j + k) = pow2 j * pow2 k"
  by (simp add: pow2_powr powr_add)

lemma pow2_mono: "j \<le> k \<Longrightarrow> pow2 j \<le> pow2 k"
  by (simp add: pow2_powr)

lemma pow2_int: "0 \<le> k \<Longrightarrow> pow2 k = of_int (2 ^ nat k)"
  by (simp add: pow2_def)

lemma binade_bounds:
  assumes "x \<noteq> 0"
  shows "pow2 (binade x) \<le> \<bar>x\<bar>" and "\<bar>x\<bar> < pow2 (binade x + 1)"
proof -
  from assms have pos: "0 < \<bar>x\<bar>" by simp
  have "of_int (binade x) \<le> log 2 \<bar>x\<bar>" by (simp add: binade_def)
  then have "2 powr (of_int (binade x)) \<le> 2 powr (log 2 \<bar>x\<bar>)" by simp
  with pos show "pow2 (binade x) \<le> \<bar>x\<bar>" by (simp add: pow2_powr)
  have "log 2 \<bar>x\<bar> < of_int (binade x + 1)" by (simp add: binade_def)
  then have "2 powr (log 2 \<bar>x\<bar>) < 2 powr (of_int (binade x + 1))" by (simp only: powr_less_cancel_iff)
  with pos show "\<bar>x\<bar> < pow2 (binade x + 1)" by (simp add: pow2_powr)
qed

lemma binade_eq:
  assumes "pow2 k \<le> \<bar>x\<bar>" and "\<bar>x\<bar> < pow2 (k + 1)"
  shows "binade x = k"
proof -
  from assms(1) pow2_pos [of k] have pos: "0 < \<bar>x\<bar>" by linarith
  from assms(1) pos have "of_int k \<le> log 2 \<bar>x\<bar>"
    by (simp add: pow2_powr le_log_iff)
  moreover from assms(2) pos have "log 2 \<bar>x\<bar> < of_int k + 1"
    by (simp add: pow2_powr log_less_iff)
  ultimately show ?thesis by (simp add: binade_def floor_unique)
qed

lemma binade_le:
  assumes "x \<noteq> 0" and "\<bar>x\<bar> \<le> pow2 k"
  shows "binade x \<le> k"
proof (rule ccontr)
  assume "\<not> binade x \<le> k"
  then have "k + 1 \<le> binade x" by simp
  then have "pow2 (k + 1) \<le> pow2 (binade x)" by (rule pow2_mono)
  moreover have "pow2 k < pow2 (k + 1)" by (simp add: pow2_powr)
  ultimately show False using binade_bounds(1) [OF assms(1)] assms(2) by linarith
qed

lemma rne_le: "x \<le> of_int n \<Longrightarrow> rne x \<le> n"
  by (auto simp: rne_def Let_def; linarith)

lemma rne_ge: "of_int n \<le> x \<Longrightarrow> n \<le> rne x"
  by (auto simp: rne_def Let_def; linarith)

lemma rne_error: "\<bar>of_int (rne x) - x\<bar> \<le> 1 / 2"
  by (auto simp: rne_def Let_def; linarith)


lemma double_nonneg: "0 \<le> x \<Longrightarrow> 0 \<le> double x"
proof (cases "x = 0")
  case True
  then show ?thesis by (simp add: double_def)
next
  case False
  assume "0 \<le> x"
  then have "of_int 0 \<le> x / pow2 (binade x - 52)" using pow2_pos [of "binade x - 52"] by simp
  then have "0 \<le> rne (x / pow2 (binade x - 52))" by (rule rne_ge)
  with False show ?thesis using pow2_pos [of "binade x - 52"] by (simp add: double_def)
qed

lemma double_le_int:
  assumes "x \<le> of_int n" and "\<bar>x\<bar> \<le> pow2 52"
  shows "double x \<le> of_int n"
proof (cases "x = 0")
  case True
  with assms(1) show ?thesis by (simp add: double_def)
next
  case False
  define k where "k = binade x - 52"
  from False assms(2) have "binade x \<le> 52" by (rule binade_le)
  then have k: "0 \<le> - k" by (simp add: k_def)
  have inv: "pow2 k * pow2 (- k) = 1" using pow2_add [of k "- k"] by (simp add: pow2_def)
  have p: "0 < pow2 k" by (rule pow2_pos)
  have "x / pow2 k = x * pow2 (- k)" using inv p by (simp add: field_simps)
  also have "\<dots> \<le> of_int n * pow2 (- k)"
    using assms(1) pow2_pos [of "- k"] by (simp add: mult_right_mono)
  also have "\<dots> = of_int (n * 2 ^ nat (- k))" using k by (simp add: pow2_int)
  finally have "rne (x / pow2 k) \<le> n * 2 ^ nat (- k)" by (rule rne_le)
  then have "of_int (rne (x / pow2 k)) \<le> (of_int (n * 2 ^ nat (- k)) :: real)"
    by (simp only: of_int_le_iff)
  then have "of_int (rne (x / pow2 k)) * pow2 k \<le> of_int (n * 2 ^ nat (- k)) * pow2 k"
    using p by (simp add: mult_right_mono)
  also have "of_int (n * 2 ^ nat (- k)) * pow2 k = of_int n * (pow2 (- k) * pow2 k)"
    using k by (simp add: pow2_int)
  also have "\<dots> = of_int n" using inv by (simp add: mult.commute)
  finally show ?thesis using False by (simp add: double_def k_def)
qed

lemma double_error: "\<bar>double x - x\<bar> \<le> \<bar>x\<bar> / 2 ^ 53"
proof (cases "x = 0")
  case True
  then show ?thesis by (simp add: double_def)
next
  case False
  define k where "k = binade x - 52"
  have p: "0 < pow2 k" by (rule pow2_pos)
  have "double x - x = (of_int (rne (x / pow2 k)) - x / pow2 k) * pow2 k"
    using False p by (simp add: double_def k_def field_simps)
  then have "\<bar>double x - x\<bar> = \<bar>of_int (rne (x / pow2 k)) - x / pow2 k\<bar> * pow2 k"
    using p by (simp add: abs_mult)
  also have "\<dots> \<le> 1 / 2 * pow2 k"
    using rne_error [of "x / pow2 k"] p by (simp add: mult_right_mono)
  also have "pow2 k = pow2 (binade x) * pow2 (- 52)"
    using pow2_add [of "binade x" "- 52"] by (simp add: k_def)
  also have "1 / 2 * (pow2 (binade x) * pow2 (- 52)) = pow2 (binade x) / 2 ^ 53"
    by (simp add: pow2_def)
  also have "\<dots> \<le> \<bar>x\<bar> / 2 ^ 53"
    using binade_bounds(1) [OF False] by (simp add: divide_right_mono)
  finally show ?thesis .
qed

lemma small_pow2: "\<bar>x\<bar> \<le> 100 \<Longrightarrow> \<bar>x\<bar> \<le> pow2 52"
  by (simp add: pow2_def)

lemma percent_range:
  assumes "0 \<le> u" and "u \<le> t"
  shows "0 \<le> percent u t \<and> percent u t \<le> 100"
proof (cases "0 < t")
  case False
  then show ?thesis by (simp add: percent_def)
next
  case True
  define q where "q = (of_int u / of_int t :: real)"
  define p where "p = double q * 100"
  from True assms have q: "0 \<le> q" "q \<le> 1" by (simp_all add: q_def)
  from q have "q \<le> of_int 1" "\<bar>q\<bar> \<le> 100" by simp_all
  then have "double q \<le> of_int 1" by (intro double_le_int small_pow2)
  moreover from q have "0 \<le> double q" by (intro double_nonneg)
  ultimately have p: "0 \<le> p" "p \<le> 100" by (simp_all add: p_def)
  then have "p \<le> of_int 100" "\<bar>p\<bar> \<le> 100" by simp_all
  then have "double p \<le> of_int 100" by (intro double_le_int small_pow2)
  moreover from p have "0 \<le> double p" by (intro double_nonneg)
  ultimately have "0 \<le> Math_round (double p)" "Math_round (double p) \<le> 100"
    by (simp_all add: Math_round_def le_floor_iff floor_le_iff)
  with True show ?thesis by (simp add: percent_def p_def q_def)
qed

lemma percent_near_exact:
  assumes "0 \<le> u" and "u \<le> t" and "0 < t"
  shows "\<bar>percent u t - round (of_int u / of_int t * 100 :: real)\<bar> \<le> 1"
proof -
  define q where "q = (of_int u / of_int t :: real)"
  define p where "p = double q * 100"
  from assms have q: "0 \<le> q" "q \<le> 1" by (simp_all add: q_def)
  have "\<bar>double q - q\<bar> \<le> \<bar>q\<bar> / 2 ^ 53" by (rule double_error)
  moreover from q have "\<bar>q\<bar> / 2 ^ 53 \<le> 1 / 2 ^ 53" by (simp add: divide_right_mono)
  ultimately have e1: "\<bar>double q - q\<bar> \<le> 1 / 2 ^ 53" by linarith
  from q have "q \<le> of_int 1" "\<bar>q\<bar> \<le> 100" by simp_all
  then have "double q \<le> of_int 1" by (intro double_le_int small_pow2)
  moreover from q have "0 \<le> double q" by (intro double_nonneg)
  ultimately have p: "0 \<le> p" "p \<le> 100" by (simp_all add: p_def)
  have "\<bar>double p - p\<bar> \<le> \<bar>p\<bar> / 2 ^ 53" by (rule double_error)
  moreover from p have "\<bar>p\<bar> / 2 ^ 53 \<le> 100 / 2 ^ 53" by (simp add: divide_right_mono)
  ultimately have e2: "\<bar>double p - p\<bar> \<le> 100 / 2 ^ 53" by linarith
  have "p - q * 100 = (double q - q) * 100" unfolding p_def by (rule left_diff_distrib [symmetric])
  then have "\<bar>p - q * 100\<bar> = \<bar>(double q - q) * 100\<bar>" by (rule arg_cong)
  also have "\<dots> = \<bar>double q - q\<bar> * \<bar>100\<bar>" by (rule abs_mult)
  finally have "\<bar>p - q * 100\<bar> = \<bar>double q - q\<bar> * 100" by simp
  with e1 have e3: "\<bar>p - q * 100\<bar> \<le> 100 / 2 ^ 53" by simp
  from e2 e3 have "\<bar>double p - q * 100\<bar> \<le> 200 / 2 ^ 53" by linarith
  then have close: "\<bar>double p - q * 100\<bar> < 1 / 2" by simp
  have "\<bar>\<lfloor>double p + 1 / 2\<rfloor> - \<lfloor>q * 100 + 1 / 2\<rfloor>\<bar> \<le> 1"
    using close by linarith
  with assms(3) show ?thesis
    by (simp add: percent_def Math_round_def round_def p_def q_def)
qed


lemma double_in_binade:
  assumes "pow2 k \<le> \<bar>x\<bar>" and "\<bar>x\<bar> < pow2 (k + 1)"
  shows "double x = of_int (rne (x / pow2 (k - 52))) * pow2 (k - 52)"
proof -
  from assms have "binade x = k" by (rule binade_eq)
  moreover from assms(1) pow2_pos [of k] have "x \<noteq> 0" by auto
  ultimately show ?thesis by (simp add: double_def)
qed

lemma double_23_40: "double (23 / 40) = 2589569785738035 / 4503599627370496"
  by (simp add: double_in_binade [of "-1"] pow2_def rne_def Let_def)

lemma double_product_23_40: "double (64739244643450875 / 1125899906842624) = 8092405580431359 / 140737488355328"
  by (simp add: double_in_binade [of 5] pow2_def rne_def Let_def)

lemma percent_at_23_40: "percent 23 40 = 57"
  by (simp add: percent_def double_23_40 double_product_23_40 Math_round_def)

lemma double_29_200: "double (29 / 200) = 5224175567749775 / 36028797018963968"
  by (simp add: double_in_binade [of "-3"] pow2_def rne_def Let_def)

lemma double_product_29_200: "double (130604389193744375 / 9007199254740992) = 8162774324609023 / 562949953421312"
  by (simp add: double_in_binade [of 3] pow2_def rne_def Let_def)

lemma percent_at_gigabytes: "percent 2320000000 16000000000 = 14"
  by (simp add: percent_def double_29_200 double_product_29_200 Math_round_def)

lemma double_half: "double (1 / 2) = 1 / 2"
  by (simp add: double_in_binade [of "-1"] pow2_def rne_def Let_def)

lemma double_fifty: "double 50 = 50"
  by (simp add: double_in_binade [of 5] pow2_def rne_def Let_def)

lemma metrics_Json:
  "metrics pF pI (Inr info) (Inr cs) c d = Json s \<Longrightarrow>
     memory_total s = MemTotal info
   \<and> memory_used s = reduce_sum (\<lambda>c. or0 (MemoryUsage c)) (platformContainers cs)
   \<and> memory_percent s = percent (memory_used s) (memory_total s)
   \<and> network_totalRx s =
        reduce_sum (\<lambda>c. or0 (case NetworkSettings c of None \<Rightarrow> None | Some n \<Rightarrow> NetworkRx n))
          (platformContainers cs)
   \<and> network_totalTx s =
        reduce_sum (\<lambda>c. or0 (case NetworkSettings c of None \<Rightarrow> None | Some n \<Rightarrow> NetworkTx n))
          (platformContainers cs)
   \<and> cpu_load s = cpuLoad (getSystemStats pF pI c d)
   \<and> resources_disk s = disk (getSystemStats pF pI c d)"
  by (auto simp: metrics_def Let_def)

lemma metrics_succeeds:
  "\<exists>s. metrics pF pI (Inr info) (Inr cs) c d = Json s"
  by (simp add: metrics_def Let_def)

lemma metrics_platform_only:
  "metrics pF pI info (Inr cs) c d = metrics pF pI info (Inr (filter platform_owned cs)) c d"
  by (simp add: metrics_def Let_def platformContainers_filter split: sum.splits)

text \<open>
  Claim C6, as the code has it. For used and total memory that are not negative,
  \<open>percent\<close> is 0 when the total is 0, and otherwise \<^verbatim>\<open>Math.round\<close> of the product that line
  176 computes in doubles. When used is at most total it lies between 0 and 100, and
  it is at most 1 away from the rounding of the exact \<open>used / total * 100\<close>. The
  \<^verbatim>\<open>resources.memory.percent\<close> of the snapshot is \<open>percent\<close> of its \<^verbatim>\<open>used\<close> and \<^verbatim>\<open>total\<close>.
\<close>

theorem memory_percent_value:
  assumes "0 \<le> u" and "0 \<le> t"
  shows "(t = 0 \<longrightarrow> percent u t = 0)
     \<and> (t \<noteq> 0 \<longrightarrow>
          percent u t = Math_round (double (double (of_int u / of_int t) * 100)))
     \<and> (u \<le> t \<longrightarrow> 0 \<le> percent u t \<and> percent u t \<le> 100)
     \<and> (u \<le> t \<and> t \<noteq> 0 \<longrightarrow>
          \<bar>percent u t - round (of_int u / of_int t * 100 :: real)\<bar> \<le> 1)
     \<and> (\<exists>s. metrics pF pI (Inr info) (Inr cs) c d = Json s
            \<and> memory_total s = MemTotal info
            \<and> memory_percent s = percent (memory_used s) (MemTotal info))"
proof (intro conjI impI)
  show "t = 0 \<Longrightarrow> percent u t = 0"
    by (simp add: percent_def)
  show "t \<noteq> 0 \<Longrightarrow> percent u t = Math_round (double (double (of_int u / of_int t) * 100))"
    using assms(2) by (simp add: percent_def)
  show "u \<le> t \<Longrightarrow> 0 \<le> percent u t"
    using assms(1) percent_range by blast
  show "u \<le> t \<Longrightarrow> percent u t \<le> 100"
    using assms(1) percent_range by blast
  show "\<bar>percent u t - round (of_int u / of_int t * 100 :: real)\<bar> \<le> 1" if "u \<le> t \<and> t \<noteq> 0"
  proof -
    from that assms(2) have "u \<le> t" "0 < t" by simp_all
    with assms(1) show ?thesis by (intro percent_near_exact)
  qed
  obtain s where s: "metrics pF pI (Inr info) (Inr cs) c d = Json s"
    using metrics_succeeds by blast
  from metrics_Json [OF s] have "memory_total s = MemTotal info"
    and "memory_percent s = percent (memory_used s) (MemTotal info)"
    by simp_all
  with s show "\<exists>s. metrics pF pI (Inr info) (Inr cs) c d = Json s
            \<and> memory_total s = MemTotal info
            \<and> memory_percent s = percent (memory_used s) (MemTotal info)"
    by blast
qed

theorem memory_percent_value_witness:
  "percent 1 2 = 50 \<and> percent 7 0 = 0 \<and> 0 \<le> percent 1 2 \<and> percent 1 2 \<le> 100
   \<and> \<bar>percent 1 2 - round (of_int 1 / of_int 2 * 100 :: real)\<bar> \<le> 1"
proof -
  have 1: "(0::int) \<le> 1" and 2: "(0::int) \<le> 2" and 7: "(0::int) \<le> 7" and 0: "(0::int) \<le> 0"
    by simp_all
  have n2: "(2::int) \<noteq> 0" and le: "(1::int) \<le> 2" and both: "(1::int) \<le> 2 \<and> (2::int) \<noteq> 0"
    by simp_all
  note a = memory_percent_value [OF 1 2]
  note b = memory_percent_value [OF 7 0]
  note a2 = a [THEN conjunct2, THEN conjunct1, rule_format, OF n2]
  note a3 = a [THEN conjunct2, THEN conjunct2, THEN conjunct1, rule_format, OF le]
  note a4 = a [THEN conjunct2, THEN conjunct2, THEN conjunct2, THEN conjunct1, rule_format, OF both]
  note b1 = b [THEN conjunct1, rule_format, OF refl]
  from a2 have v: "percent 1 2 = 50" by (simp add: double_half double_fifty Math_round_def)
  from v b1 a3 a4 show ?thesis by blast
qed

text \<open>
  The claim C6 as stated fails for used 23 and total 40, both of them exact doubles
  with used at most total: the exact value of \<open>23 / 40 * 100\<close> is 57.5, which rounds to
  58, but the double nearest to \<open>23 / 40\<close> lies below it, its product with 100 rounds to
  the double 57.49999999999999 (\<open>double_product_23_40\<close>), and \<^verbatim>\<open>Math.round\<close> gives 57.
\<close>

theorem percent_differs_from_exact_rounding:
  "(0::int) \<le> 23 \<and> (23::int) \<le> 40 \<and> percent 23 40 = 57
   \<and> round (of_int 23 / of_int 40 * 100 :: real) = 58"
  by (simp add: percent_def double_23_40 double_product_23_40 Math_round_def round_def)

text \<open>
  Claim C9. In a snapshot, \<^verbatim>\<open>memory.used\<close>, \<^verbatim>\<open>network.totalRx\<close> and \<^verbatim>\<open>network.totalTx\<close> are
  the sums of the counters (0 for a missing one) over the containers that follow the
  naming convention. The other containers contribute nothing: the answer is the one
  for the list without them, and removing any one of them leaves the answer as it is.
\<close>

theorem aggregates_over_platform_containers:
  assumes "metrics pF pI (Inr info) (Inr cs) c d = Json s"
  shows "memory_used s = (\<Sum>x \<leftarrow> filter platform_owned cs. or0 (MemoryUsage x))
     \<and> network_totalRx s =
         (\<Sum>x \<leftarrow> filter platform_owned cs.
            or0 (case NetworkSettings x of None \<Rightarrow> None | Some n \<Rightarrow> NetworkRx n))
     \<and> network_totalTx s =
         (\<Sum>x \<leftarrow> filter platform_owned cs.
            or0 (case NetworkSettings x of None \<Rightarrow> None | Some n \<Rightarrow> NetworkTx n))
     \<and> metrics pF pI (Inr info) (Inr (filter platform_owned cs)) c d = Json s
     \<and> (\<forall>pre x post. cs = pre @ x # post \<and> \<not> platform_owned x \<longrightarrow>
           metrics pF pI (Inr info) (Inr (pre @ post)) c d = Json s)"
proof -
  note j = metrics_Json [OF assms]
  have only: "metrics pF pI (Inr info) (Inr (filter platform_owned cs)) c d = Json s"
    using assms metrics_platform_only [of pF pI "Inr info" cs c d] by simp
  have rest: "metrics pF pI (Inr info) (Inr (pre @ post)) c d = Json s"
    if "cs = pre @ x # post \<and> \<not> platform_owned x" for pre x post
  proof -
    from that have "filter platform_owned (pre @ post) = filter platform_owned cs" by simp
    then show ?thesis
      using only metrics_platform_only [of pF pI "Inr info" "pre @ post" c d] by simp
  qed
  from j have sums: "memory_used s = (\<Sum>x \<leftarrow> filter platform_owned cs. or0 (MemoryUsage x))
     \<and> network_totalRx s =
         (\<Sum>x \<leftarrow> filter platform_owned cs.
            or0 (case NetworkSettings x of None \<Rightarrow> None | Some n \<Rightarrow> NetworkRx n))
     \<and> network_totalTx s =
         (\<Sum>x \<leftarrow> filter platform_owned cs.
            or0 (case NetworkSettings x of None \<Rightarrow> None | Some n \<Rightarrow> NetworkTx n))"
    by (simp add: reduce_sum_sum_list platformContainers_filter)
  from sums only rest show ?thesis by blast
qed

theorem aggregates_over_platform_containers_witness:
  "(let info = \<lparr>ServerVersion = ''24.0'', Containers = 3, ContainersRunning = 2, ContainersStopped = 1,
                 MemTotal = 1000, NCPU = 4\<rparr>;
        c1 = \<lparr>Names = [''/mini-cloud-platform-1''], MemoryUsage = Some 100,
               NetworkSettings = Some \<lparr>NetworkRx = Some 5, NetworkTx = Some 7\<rparr>\<rparr>;
        c2 = \<lparr>Names = [''/redis''], MemoryUsage = Some 300,
               NetworkSettings = Some \<lparr>NetworkRx = Some 11, NetworkTx = Some 13\<rparr>\<rparr>;
        c3 = \<lparr>Names = [''/app-mini-cloud-7''], MemoryUsage = Some 150,
               NetworkSettings = Some \<lparr>NetworkRx = Some 1, NetworkTx = None\<rparr>\<rparr>
    in \<exists>s. metrics (\<lambda>x. None) (\<lambda>x. None) (Inr info) (Inr [c1, c2, c3]) (Inl ExecError) (Inl ExecError) = Json s
         \<and> memory_used s = 250 \<and> network_totalRx s = 6 \<and> network_totalTx s = 7
         \<and> metrics (\<lambda>x. None) (\<lambda>x. None) (Inr info) (Inr [c1, c3]) (Inl ExecError) (Inl ExecError) = Json s)"
  using aggregates_over_platform_containers [of "\<lambda>x. None" "\<lambda>x. None"
     "\<lparr>ServerVersion = ''24.0'', Containers = 3, ContainersRunning = 2, ContainersStopped = 1,
                 MemTotal = 1000, NCPU = 4\<rparr>"
     "[\<lparr>Names = [''/mini-cloud-platform-1''], MemoryUsage = Some 100,
               NetworkSettings = Some \<lparr>NetworkRx = Some 5, NetworkTx = Some 7\<rparr>\<rparr>,
       \<lparr>Names = [''/redis''], MemoryUsage = Some 300,
               NetworkSettings = Some \<lparr>NetworkRx = Some 11, NetworkTx = Some 13\<rparr>\<rparr>,
       \<lparr>Names = [''/app-mini-cloud-7''], MemoryUsage = Some 150,
               NetworkSettings = Some \<lparr>NetworkRx = Some 1, NetworkTx = None\<rparr>\<rparr>]"
     "Inl ExecError" "Inl ExecError"]
  by (simp add: metrics_def Let_def platformContainers_def reduce_sum_def getSystemStats_def percent_def)

text \<open>
  Claim C5, as the code has it. When a command of the host statistics fails, the
  request succeeds and the snapshot has the defaults of \<^verbatim>\<open>getSystemStats\<close>: CPU load 0,
  disk usage 0 and \<^verbatim>\<open>N/A\<close>. When \<^verbatim>\<open>docker.info()\<close> or \<^verbatim>\<open>docker.listContainers\<close> fails, the
  \<^verbatim>\<open>catch\<close> of line 189 answers with status 500 and no snapshot.
\<close>

theorem host_stats_failure_degrades:
  "(\<exists>s. metrics pF pI (Inr info) (Inr cs) (Inl e) d = Json s
        \<and> cpu_load s = 0 \<and> resources_disk s = \<lparr>usage = 0, human = ''N/A''\<rparr>)
   \<and> (\<exists>s. metrics pF pI (Inr info) (Inr cs) c (Inl e) = Json s
        \<and> cpu_load s = 0 \<and> resources_disk s = \<lparr>usage = 0, human = ''N/A''\<rparr>)
   \<and> metrics pF pI (Inl e1) listing c d = Status500 ''Failed to get system metrics''
   \<and> metrics pF pI info' (Inl e2) c d = Status500 ''Failed to get system metrics''"
  by (simp add: metrics_def Let_def getSystemStats_def split: sum.splits)

text \<open>
  The claim C5 as stated fails when the container engine cannot give its info: the
  request fails with status 500 although both host commands succeed.
\<close>

theorem docker_failure_fails_request:
  "metrics (\<lambda>x. None) (\<lambda>x. None) (Inl DockerError) (Inr []) (Inr ''12.5'') (Inr ''40%'')
     = Status500 ''Failed to get system metrics''"
  by (simp add: metrics_def)

section \<open>Build sessions\<close>

lemma tick_publish:
  assumes "timers w = [(d, BuildTick S msgs i)]" and "i < length msgs"
  shows "tick w = Some (w\<lparr>clock := d, timers := [(d + 2000, BuildTick S msgs (i + 1))],
                          state := publish S (msgs ! i) d (state w)\<rparr>)"
  using assms by (simp add: tick_def)

lemma tick_finish:
  assumes "timers w = [(d, BuildTick S msgs i)]" and "\<not> i < length msgs"
  shows "tick w = Some (w\<lparr>clock := d, timers := [(d + 3600000, Purge S)]\<rparr>)"
  using assms by (simp add: tick_def)

lemma tick_purge:
  assumes "timers w = [(d, Purge S)]"
  shows "tick w = Some (w\<lparr>clock := d, timers := [],
                          state := (state w)\<lparr>buildLogs := (buildLogs (state w))(S := None)\<rparr>\<rparr>)"
  using assms by (simp add: tick_def)

lemma run_idle: "timers w = [] \<Longrightarrow> run n w = w"
  by (cases n) (simp_all add: tick_def)

lemma run_publishes:
  "timers w = [(d, BuildTick S msgs i)] \<Longrightarrow> i + k \<le> length msgs \<Longrightarrow>
   state (run k w) = hub_run (publishes S msgs i d k) (state w)
   \<and> timers (run k w) = [(d + 2000 * k, BuildTick S msgs (i + k))]
   \<and> (0 < k \<longrightarrow> clock (run k w) = d + 2000 * (k - 1))"
proof (induction k arbitrary: w d i)
  case 0
  then show ?case by simp
next
  case (Suc k)
  let ?w = "w\<lparr>clock := d, timers := [(d + 2000, BuildTick S msgs (i + 1))],
                          state := publish S (msgs ! i) d (state w)\<rparr>"
  from Suc.prems have t: "tick w = Some ?w" by (simp add: tick_publish)
  have "timers ?w = [(d + 2000, BuildTick S msgs (i + 1))]" by simp
  moreover from Suc.prems have "(i + 1) + k \<le> length msgs" by simp
  ultimately have ih: "state (run k ?w) = hub_run (publishes S msgs (i + 1) (d + 2000) k) (state ?w)
   \<and> timers (run k ?w) = [(d + 2000 + 2000 * k, BuildTick S msgs (i + 1 + k))]
   \<and> (0 < k \<longrightarrow> clock (run k ?w) = d + 2000 + 2000 * (k - 1))"
    by (rule Suc.IH)
  show ?case
  proof (cases k)
    case 0
    with t show ?thesis by simp
  next
    case (Suc j)
    with t ih show ?thesis by simp
  qed
qed

lemma buffer_of_publish: "buffer_of (publish S L now h) S = buffer_of h S @ [L]"
  by (simp add: buffer_of_def publish_buildLogs)

lemma length_messages: "length (messages name) = 5"
  by (simp add: messages_def)


lemma tick_None_run: "tick w = None \<Longrightarrow> run n w = w"
  by (cases n) simp_all

lemma run_add: "run (m + n) w = run n (run m w)"
proof (induction m arbitrary: w)
  case 0
  then show ?case by simp
next
  case (Suc m)
  then show ?case by (cases "tick w") (simp_all add: tick_None_run)
qed

lemma take_publishes: "take k (publishes S msgs i d n) = publishes S msgs i d (min k n)"
proof (induction n arbitrary: k i d)
  case 0
  then show ?case by simp
next
  case (Suc n)
  then show ?case by (cases k) simp_all
qed

lemma buffer_of_publishes:
  "i + k \<le> length msgs \<Longrightarrow>
   buffer_of (hub_run (publishes S msgs i d k) h) S = buffer_of h S @ take k (drop i msgs)"
proof (induction k arbitrary: h i d)
  case 0
  then show ?case by simp
next
  case (Suc k)
  from Suc.prems have "i < length msgs" by simp
  then have d: "drop i msgs = msgs ! i # drop (i + 1) msgs" by (simp add: Cons_nth_drop_Suc)
  from Suc.prems have "(i + 1) + k \<le> length msgs" by simp
  then have "buffer_of (hub_run (publishes S msgs (i + 1) (d + 2000) k) (publish S (msgs ! i) d h)) S
      = buffer_of (publish S (msgs ! i) d h) S @ take k (drop (i + 1) msgs)"
    by (rule Suc.IH)
  then show ?case by (simp add: d buffer_of_publish)
qed

lemma session_timeline:
  fixes w :: world and name S :: string
  assumes "timers w = []"
  defines "T \<equiv> clock w" and "ms \<equiv> messages name"
  defines "w0 \<equiv> simulateBuildLogs S name w"
  shows "\<forall>k \<le> 5. state (run k w0) = hub_run (publishes S ms 0 (T + 2000) k) (state w)
                 \<and> timers (run k w0) = [(T + 2000 * (k + 1), BuildTick S ms k)]
                 \<and> buffer_of (state (run k w0)) S = buffer_of (state w) S @ take k ms"
    and "clock (run 5 w0) = T + 10000"
    and "state (run 6 w0) = state (run 5 w0)"
    and "clock (run 6 w0) = T + 12000"
    and "timers (run 6 w0) = [(T + 3612000, Purge S)]"
    and "clock (run 7 w0) = T + 3612000"
    and "timers (run 7 w0) = []"
    and "state (run 7 w0) = hub_step (Delete S) (state (run 5 w0))"
    and "run (7 + n) w0 = run 7 w0"
proof -
  have t0: "timers w0 = [(T + 2000, BuildTick S ms 0)]"
    using assms(1) by (simp add: w0_def T_def ms_def simulateBuildLogs_def)
  have s0: "state w0 = state w"
    by (simp add: w0_def simulateBuildLogs_def)
  have len: "length ms = 5" by (simp add: ms_def length_messages)
  show steps: "\<forall>k \<le> 5. state (run k w0) = hub_run (publishes S ms 0 (T + 2000) k) (state w)
                 \<and> timers (run k w0) = [(T + 2000 * (k + 1), BuildTick S ms k)]
                 \<and> buffer_of (state (run k w0)) S = buffer_of (state w) S @ take k ms"
  proof (intro allI impI)
    fix k :: nat assume k: "k \<le> 5"
    with len have "0 + k \<le> length ms" by simp
    with t0 have r: "state (run k w0) = hub_run (publishes S ms 0 (T + 2000) k) (state w0)
       \<and> timers (run k w0) = [(T + 2000 + 2000 * k, BuildTick S ms (0 + k))]"
      using run_publishes [of w0 "T + 2000" S ms 0 k] by simp
    from k len have "buffer_of (hub_run (publishes S ms 0 (T + 2000) k) (state w)) S
        = buffer_of (state w) S @ take k (drop 0 ms)"
      by (intro buffer_of_publishes) simp
    with r s0 show "state (run k w0) = hub_run (publishes S ms 0 (T + 2000) k) (state w)
                 \<and> timers (run k w0) = [(T + 2000 * (k + 1), BuildTick S ms k)]
                 \<and> buffer_of (state (run k w0)) S = buffer_of (state w) S @ take k ms"
      by simp
  qed
  from len t0 have "0 < (5::nat) \<longrightarrow> clock (run 5 w0) = T + 2000 + 2000 * (5 - 1)"
    using run_publishes [of w0 "T + 2000" S ms 0 5] by simp
  then show c5: "clock (run 5 w0) = T + 10000" by simp
  from steps have t5: "timers (run 5 w0) = [(T + 12000, BuildTick S ms 5)]" by simp
  with len have k6: "tick (run 5 w0) =
      Some ((run 5 w0)\<lparr>clock := T + 12000, timers := [(T + 12000 + 3600000, Purge S)]\<rparr>)"
    by (simp add: tick_finish)
  have "run 6 w0 = run 1 (run 5 w0)" using run_add [of 5 1 w0] by simp
  with k6 have r6: "run 6 w0 =
      (run 5 w0)\<lparr>clock := T + 12000, timers := [(T + 12000 + 3600000, Purge S)]\<rparr>"
    by simp
  then show "state (run 6 w0) = state (run 5 w0)" by simp
  from r6 show "clock (run 6 w0) = T + 12000" by simp
  from r6 show t6: "timers (run 6 w0) = [(T + 3612000, Purge S)]" by simp
  then have k7: "tick (run 6 w0) =
      Some ((run 6 w0)\<lparr>clock := T + 3612000, timers := [],
              state := (state (run 6 w0))\<lparr>buildLogs := (buildLogs (state (run 6 w0)))(S := None)\<rparr>\<rparr>)"
    by (rule tick_purge)
  have "run 7 w0 = run 1 (run 6 w0)" using run_add [of 6 1 w0] by simp
  with k7 have r7: "run 7 w0 = (run 6 w0)\<lparr>clock := T + 3612000, timers := [],
              state := (state (run 6 w0))\<lparr>buildLogs := (buildLogs (state (run 6 w0)))(S := None)\<rparr>\<rparr>"
    by simp
  then show "clock (run 7 w0) = T + 3612000" by simp
  from r7 show t7: "timers (run 7 w0) = []" by simp
  from r7 r6 show "state (run 7 w0) = hub_step (Delete S) (state (run 5 w0))" by simp
  from t7 show "run (7 + n) w0 = run 7 w0" by (simp add: run_add run_idle)
qed


lemma publishes_five:
  "publishes S ms 0 (T + 2000) 5 =
     [Publish S (ms ! 0) (T + 2000), Publish S (ms ! 1) (T + 4000),
      Publish S (ms ! 2) (T + 6000), Publish S (ms ! 3) (T + 8000),
      Publish S (ms ! 4) (T + 10000)]"
  by (simp add: eval_nat_numeral)

lemma next_timer_None: "next_timer ts = None \<longleftrightarrow> ts = []"
  by (cases ts) (simp_all split: option.splits)

lemma next_timer_in: "next_timer ts = Some t \<Longrightarrow> t \<in> set ts"
  by (induction ts arbitrary: t) (auto split: option.splits if_splits)

lemma next_timer_least: "next_timer ts = Some t \<Longrightarrow> y \<in> set ts \<Longrightarrow> fst t \<le> fst y"
proof (induction ts arbitrary: t)
  case Nil
  then show ?case by simp
next
  case (Cons a ts)
  show ?case
  proof (cases "next_timer ts")
    case None
    with Cons.prems show ?thesis by (simp add: next_timer_None)
  next
    case (Some t')
    with Cons.prems Cons.IH [OF Some] show ?thesis
      by (auto split: if_splits)
  qed
qed

lemma next_timer_filter:
  "next_timer ts = Some t \<Longrightarrow> P t \<Longrightarrow> next_timer (filter P ts) = Some t"
proof (induction ts arbitrary: t)
  case Nil
  then show ?case by simp
next
  case (Cons a ts)
  show ?case
  proof (cases "next_timer ts")
    case None
    with Cons.prems show ?thesis by (simp add: next_timer_None)
  next
    case (Some t')
    show ?thesis
    proof (cases "fst t' < fst a")
      case True
      with Some Cons.prems have t: "t = t'" by simp
      with Cons.prems(2) Some have "next_timer (filter P ts) = Some t'" by (simp add: Cons.IH)
      with True t show ?thesis by simp
    next
      case False
      with Some Cons.prems have t: "t = a" by simp
      show ?thesis
      proof (cases "next_timer (filter P ts)")
        case None
        with t Cons.prems(2) show ?thesis by simp
      next
        case (Some u)
        then have "u \<in> set ts" using next_timer_in [OF Some] by simp
        with \<open>next_timer ts = Some t'\<close> have "fst t' \<le> fst u" by (rule next_timer_least)
        with False have "\<not> fst u < fst a" by simp
        with Some t Cons.prems(2) show ?thesis by simp
      qed
    qed
  qed
qed

lemma filter_remove1_other: "\<not> P x \<Longrightarrow> filter P (remove1 x xs) = filter P xs"
  by (induction xs) auto

lemma fire_other_subject:
  assumes "\<not> about S cb"
  shows "buildLogs (state (fire d cb w)) S = buildLogs (state w) S"
    and "own_timers S (fire d cb w) = own_timers S w"
  using assms by (cases cb; auto simp: publish_buildLogs own_timers_def)+

lemma fire_own_subject:
  assumes "about S cb" and "buildLogs (state v) S = buildLogs (state w) S"
  shows "buildLogs (state (fire d cb v)) S = buildLogs (state (fire d cb w)) S"
    and "own_timers S (fire d cb w) = own_timers S w @ timers (fire d cb (w\<lparr>timers := []\<rparr>))"
    and "timers (fire d cb v) = timers v @ timers (fire d cb (w\<lparr>timers := []\<rparr>))"
  using assms by (cases cb; auto simp: publish_buildLogs own_timers_def buffer_of_def)+

lemma external_step:
  assumes "external e"
  shows "buildLogs (hub_step e h) = buildLogs h"
proof (cases e)
  case (Connection w a b)
  then show ?thesis
    by (cases "truthy a")
       (auto simp: connection_def Let_def send_def split: option.splits)
next
  case (Close w)
  then show ?thesis by (simp add: on_close_def unsubscribe_def split: option.splits)
qed (use assms in simp_all)

lemma deploy_other_subject:
  assumes "fetched \<noteq> Inr (Some S)"
  shows "own_timers S (snd (deploy templateId fetched w)) = own_timers S w"
    and "buildLogs (state (snd (deploy templateId fetched w))) S = buildLogs (state w) S"
proof -
  have start: "own_timers S (start_session app_id name w) = own_timers S w
      \<and> buildLogs (state (start_session app_id name w)) S = buildLogs (state w) S"
    if "app_id \<noteq> Some S" for app_id name
  proof (cases "truthy app_id")
    case False
    then show ?thesis by (simp add: start_session_def)
  next
    case True
    then obtain a where a: "app_id = Some a" by (cases app_id) auto
    with that have "a \<noteq> S" by simp
    with a True show ?thesis
      by (simp add: start_session_def simulateBuildLogs_def own_timers_def)
  qed
  show "own_timers S (snd (deploy templateId fetched w)) = own_timers S w"
    using assms start by (auto simp: deploy_def split: option.splits sum.splits)
  show "buildLogs (state (snd (deploy templateId fetched w))) S = buildLogs (state w) S"
    using assms start by (auto simp: deploy_def split: option.splits sum.splits)
qed

lemma session_simulation:
  assumes "timers v = own_timers S w" and "buildLogs (state v) S = buildLogs (state w) S"
    and "\<forall>t \<in> set ts. foreign S t"
  shows "timers (run (fired S ts w) v) = own_timers S (drive ts w)
       \<and> buildLogs (state (run (fired S ts w) v)) S = buildLogs (state (drive ts w)) S"
  using assms
proof (induction ts arbitrary: w v)
  case Nil
  then show ?case by simp
next
  case (Cons t ts)
  from Cons.prems(3) have rest: "\<forall>t \<in> set ts. foreign S t" by simp
  show ?case
  proof (cases t)
    case (Deploy now templateId fetched)
    with Cons.prems(3) have "fetched \<noteq> Inr (Some S)" by simp
    note other = deploy_other_subject [OF this, of templateId "w\<lparr>clock := now\<rparr>"]
    have "own_timers S (w\<lparr>clock := now\<rparr>) = own_timers S w" by (simp add: own_timers_def)
    with other Cons.prems(1,2) have "timers v = own_timers S (turn_step (Deploy now templateId fetched) w)"
      and "buildLogs (state v) S = buildLogs (state (turn_step (Deploy now templateId fetched) w)) S"
      by simp_all
    from Cons.IH [OF this rest] show ?thesis by (simp only: Deploy fired.simps drive.simps)
  next
    case (Hub e)
    with Cons.prems(3) have "external e" by simp
    then have "buildLogs (hub_step e (state w)) = buildLogs (state w)" by (rule external_step)
    with Cons.prems(1,2) have "timers v = own_timers S (turn_step (Hub e) w)"
      and "buildLogs (state v) S = buildLogs (state (turn_step (Hub e) w)) S"
      by (simp_all add: own_timers_def)
    from Cons.IH [OF this rest] show ?thesis by (simp only: Hub fired.simps drive.simps)
  next
    case Timer
    show ?thesis
    proof (cases "next_timer (timers w)")
      case None
      then have "timers w = []" by (simp add: next_timer_None)
      with Cons.prems(1) have "timers v = []" by (simp add: own_timers_def)
      from None have same: "turn_step Timer w = w" by (simp add: tick_def)
      from None have f: "fired S (Timer # ts) w = fired S ts w" by (simp add: tick_def)
      from Cons.IH [OF Cons.prems(1,2) rest] show ?thesis
        by (simp only: Timer f drive.simps same)
    next
      case (Some p)
      obtain d cb where p: "p = (d, cb)" by (cases p)
      let ?w = "w\<lparr>clock := d, timers := remove1 (d, cb) (timers w)\<rparr>"
      from Some p have w': "turn_step Timer w = fire d cb ?w" by (simp add: tick_def)
      show ?thesis
      proof (cases "about S cb")
        case False
        then have "own_timers S ?w = own_timers S w"
          by (simp add: own_timers_def filter_remove1_other)
        with False Cons.prems(1,2) have "timers v = own_timers S (fire d cb ?w)"
          and "buildLogs (state v) S = buildLogs (state (fire d cb ?w)) S"
          by (simp_all add: fire_other_subject)
        then have "timers v = own_timers S (turn_step Timer w)"
          and "buildLogs (state v) S = buildLogs (state (turn_step Timer w)) S"
          by (simp_all only: w')
        note ih = Cons.IH [OF this rest]
        from Some p False have f: "fired S (Timer # ts) w = fired S ts (turn_step Timer w)"
          by simp
        from ih show ?thesis by (simp only: Timer f drive.simps)
      next
        case True
        let ?v = "v\<lparr>clock := d, timers := remove1 (d, cb) (timers v)\<rparr>"
        from Some p True Cons.prems(1) have "next_timer (timers v) = Some (d, cb)"
          by (simp add: own_timers_def next_timer_filter)
        then have v': "tick v = Some (fire d cb ?v)" by (simp add: tick_def)
        have tv: "timers ?v = own_timers S ?w"
          using Cons.prems(1) by (simp add: own_timers_def filter_remove1)
        have bv: "buildLogs (state ?v) S = buildLogs (state ?w) S"
          using Cons.prems(2) by simp
        have "timers (fire d cb ?v) = timers ?v @ timers (fire d cb (?w\<lparr>timers := []\<rparr>))"
          using True bv by (rule fire_own_subject(3))
        also have "\<dots> = own_timers S (fire d cb ?w)"
          using fire_own_subject(2) [OF True bv] tv by simp
        finally have 1: "timers (fire d cb ?v) = own_timers S (turn_step Timer w)"
          by (simp only: w')
        have 2: "buildLogs (state (fire d cb ?v)) S = buildLogs (state (turn_step Timer w)) S"
          using fire_own_subject(1) [OF True bv] by (simp only: w')
        note ih = Cons.IH [OF 1 2 rest]
        from Some p True have f: "fired S (Timer # ts) w = Suc (fired S ts (turn_step Timer w))"
          by simp
        from v' have r: "run (Suc k) v = run k (fire d cb ?v)" for k by simp
        from ih show ?thesis by (simp only: Timer f r drive.simps)
      qed
    qed
  qed
qed


lemma session_alone:
  assumes "timers w = []" and "S \<noteq> []"
  shows "(let T = clock w; ms = messages name;
              start = rocket @ '' Starting template deployment...'';
              h0 = (state w)\<lparr>buildLogs := (buildLogs (state w))(S \<mapsto> [start])\<rparr>;
              w0 = start_session (Some S) name w;
              evs = [Publish S (ms ! 0) (T + 2000), Publish S (ms ! 1) (T + 4000),
                     Publish S (ms ! 2) (T + 6000), Publish S (ms ! 3) (T + 8000),
                     Publish S (ms ! 4) (T + 10000)]
          in (\<forall>templateId. template_name templateId = Some name \<longrightarrow>
                 deploy templateId (Inr (Some S)) w = (Deployed200, w0))
           \<and> length ms = 5
           \<and> (\<forall>k \<le> 5. state (run k w0) = hub_run (take k evs) h0
                  \<and> timers (run k w0) = [(T + 2000 * (k + 1), BuildTick S ms k)]
                  \<and> buffer_of (state (run k w0)) S = start # take k ms)
           \<and> clock (run 5 w0) = T + 10000
           \<and> state (run 6 w0) = state (run 5 w0)
           \<and> clock (run 6 w0) = T + 12000
           \<and> timers (run 6 w0) = [(T + 3612000, Purge S)]
           \<and> clock (run 7 w0) = T + 3612000
           \<and> timers (run 7 w0) = []
           \<and> buildLogs (state (run 7 w0)) S = None
           \<and> sent (state (run 7 w0)) = sent (state (run 5 w0))
           \<and> (\<forall>n. run (7 + n) w0 = run 7 w0))"
proof -
  define start where "start = rocket @ '' Starting template deployment...''"
  define w1 where "w1 = w\<lparr>state := (state w)\<lparr>buildLogs := (buildLogs (state w))(S \<mapsto> [start])\<rparr>\<rparr>"
  define w0 where "w0 = simulateBuildLogs S name w1"
  define ms where "ms = messages name"
  define T where "T = clock w"
  have d: "start_session (Some S) name w = w0"
    using assms(2) by (simp add: start_session_def w0_def w1_def start_def)
  have t1: "timers w1 = []" using assms(1) by (simp add: w1_def)
  have c1: "clock w1 = T" by (simp add: w1_def T_def)
  have b1: "buffer_of (state w1) S = [start]" by (simp add: w1_def buffer_of_def)
  note tl = session_timeline [OF t1, where S = S and name = name, folded w0_def ms_def, unfolded c1]
  have steps: "state (run k w0) = hub_run (take k (publishes S ms 0 (T + 2000) 5)) (state w1)
                  \<and> timers (run k w0) = [(T + 2000 * (k + 1), BuildTick S ms k)]
                  \<and> buffer_of (state (run k w0)) S = start # take k ms" if "k \<le> 5" for k
  proof -
    from tl(1) that have a: "state (run k w0) = hub_run (publishes S ms 0 (T + 2000) k) (state w1)"
      and b: "timers (run k w0) = [(T + 2000 * (k + 1), BuildTick S ms k)]"
      and c: "buffer_of (state (run k w0)) S = buffer_of (state w1) S @ take k ms"
      by blast+
    from that have tk: "take k (publishes S ms 0 (T + 2000) 5) = publishes S ms 0 (T + 2000) k"
      by (simp add: take_publishes min_def)
    from c b1 have c': "buffer_of (state (run k w0)) S = start # take k ms" by simp
    from a tk have a': "state (run k w0) = hub_run (take k (publishes S ms 0 (T + 2000) 5)) (state w1)"
      by simp
    from a' b c' show ?thesis by blast
  qed
  have purged: "buildLogs (state (run 7 w0)) S = None"
    using tl(8) by simp
  have same: "sent (state (run 7 w0)) = sent (state (run 5 w0))"
    using tl(8) by simp
  have len: "length ms = 5" by (simp add: ms_def length_messages)
  have h1: "state w1 = (state w)\<lparr>buildLogs := (buildLogs (state w))(S \<mapsto> [start])\<rparr>"
    by (simp add: w1_def)
  have A: "\<forall>templateId. template_name templateId = Some name \<longrightarrow>
             deploy templateId (Inr (Some S)) w = (Deployed200, w0)"
    by (simp add: deploy_def d)
  have B: "\<forall>k \<le> 5. state (run k w0) = hub_run (take k (publishes S ms 0 (T + 2000) 5)) (state w1)
                \<and> timers (run k w0) = [(T + 2000 * (k + 1), BuildTick S ms k)]
                \<and> buffer_of (state (run k w0)) S = start # take k ms"
    using steps by blast
  have C: "\<forall>n. run (7 + n) w0 = run 7 w0" using tl(9) by blast
  note all = conjI [OF A conjI [OF len conjI [OF B conjI [OF tl(2) conjI [OF tl(3) conjI [OF tl(4)
      conjI [OF tl(5) conjI [OF tl(6) conjI [OF tl(7) conjI [OF purged conjI [OF same C]]]]]]]]]]]
  show ?thesis
    unfolding Let_def d
    by (rule all [unfolded h1 publishes_five ms_def T_def start_def])
qed

lemma start_session_alone:
  assumes "\<forall>t \<in> set (timers w). \<not> about S (snd t)" and "S \<noteq> []"
  shows "timers (start_session (Some S) name (w\<lparr>timers := []\<rparr>)) =
           own_timers S (start_session (Some S) name w)"
    and "buildLogs (state (start_session (Some S) name (w\<lparr>timers := []\<rparr>))) S =
           buildLogs (state (start_session (Some S) name w)) S"
proof -
  from assms(1) have "filter (\<lambda>t. about S (snd t)) (timers w) = []"
    by (simp add: filter_empty_conv)
  with assms(2) show "timers (start_session (Some S) name (w\<lparr>timers := []\<rparr>)) =
           own_timers S (start_session (Some S) name w)"
    by (simp add: start_session_def simulateBuildLogs_def own_timers_def)
  from assms(2) show "buildLogs (state (start_session (Some S) name (w\<lparr>timers := []\<rparr>))) S =
           buildLogs (state (start_session (Some S) name w)) S"
    by (simp add: start_session_def simulateBuildLogs_def)
qed

text \<open>
  Claim C4, as the code has it. A build session is started at the time \<open>T\<close> for the app
  id \<open>S\<close> and the template name \<open>name\<close>, while no timer about \<open>S\<close> is pending (no earlier
  session for \<open>S\<close> has a tick or its purge still to come); the deployment handler starts
  it when the platform API answers with the \<^verbatim>\<open>app_id\<close> \<open>S\<close>. It stores the start line as the
  buffer of \<open>S\<close> and sets the interval.

  Alone (\<open>alone\<close>, no other timer pending), the first five turns of the event loop are
  the five ticks at \<open>T + 2000, ..., T + 10000\<close>: tick \<open>k\<close> publishes \<^verbatim>\<open>messages[k - 1]\<close> to \<open>S\<close>
  and leaves the interval with \<^verbatim>\<open>index = k\<close>, so that after it the buffer is the start
  line followed by the first \<open>k\<close> messages; the fifth message is the completion line. The
  sixth tick, at \<open>T + 12000\<close>, publishes nothing, clears the interval and sets the purge
  for 3600000 ms later. The purge runs at \<open>T + 3612000\<close> and deletes the buffer of \<open>S\<close>.
  After it no timer is pending and further turns of the event loop change nothing, so
  nothing is published once the buffer is purged.

  Among other sessions and connections (\<open>w0\<close>, driven by any turns in which timers fire,
  connections arrive, close or change their ready state, and deployments are answered
  with other app ids than \<open>S\<close>), the buffer of \<open>S\<close> and the pending timers about \<open>S\<close> are at
  every moment those of the session alone after as many turns as callbacks about \<open>S\<close>
  have fired: the session goes through the same ticks, due at the same times, and its
  purge.
\<close>

theorem build_session_timeline:
  assumes "\<forall>t \<in> set (timers w). \<not> about S (snd t)" and "S \<noteq> []"
  shows "(let T = clock w; ms = messages name;
              start = rocket @ '' Starting template deployment...'';
              h0 = (state w)\<lparr>buildLogs := (buildLogs (state w))(S \<mapsto> [start])\<rparr>;
              w0 = start_session (Some S) name w;
              alone = start_session (Some S) name (w\<lparr>timers := []\<rparr>);
              evs = [Publish S (ms ! 0) (T + 2000), Publish S (ms ! 1) (T + 4000),
                     Publish S (ms ! 2) (T + 6000), Publish S (ms ! 3) (T + 8000),
                     Publish S (ms ! 4) (T + 10000)]
          in (\<forall>templateId. template_name templateId = Some name \<longrightarrow>
                 deploy templateId (Inr (Some S)) w = (Deployed200, w0))
           \<and> length ms = 5
           \<and> (\<forall>k \<le> 5. state (run k alone) = hub_run (take k evs) h0
                  \<and> timers (run k alone) = [(T + 2000 * (k + 1), BuildTick S ms k)]
                  \<and> buffer_of (state (run k alone)) S = start # take k ms)
           \<and> clock (run 5 alone) = T + 10000
           \<and> state (run 6 alone) = state (run 5 alone)
           \<and> clock (run 6 alone) = T + 12000
           \<and> timers (run 6 alone) = [(T + 3612000, Purge S)]
           \<and> clock (run 7 alone) = T + 3612000
           \<and> timers (run 7 alone) = []
           \<and> buildLogs (state (run 7 alone)) S = None
           \<and> sent (state (run 7 alone)) = sent (state (run 5 alone))
           \<and> (\<forall>n. run (7 + n) alone = run 7 alone)
           \<and> (\<forall>ts. (\<forall>t \<in> set ts. foreign S t) \<longrightarrow>
                 own_timers S (drive ts w0) = timers (run (fired S ts w0) alone)
                 \<and> buildLogs (state (drive ts w0)) S =
                     buildLogs (state (run (fired S ts w0) alone)) S))"
proof -
  define u where "u = w\<lparr>timers := []\<rparr>"
  have tu: "timers u = []" by (simp add: u_def)
  have du: "deploy templateId (Inr (Some S)) w = (Deployed200, start_session (Some S) name w)"
    if "template_name templateId = Some name" for templateId
    using that by (simp add: deploy_def)
  note old = session_alone [OF tu assms(2), where name = name, unfolded Let_def]
  have su: "state u = state w" and cu: "clock u = clock w" by (simp_all add: u_def)
  have sim: "own_timers S (drive ts (start_session (Some S) name w)) =
                 timers (run (fired S ts (start_session (Some S) name w)) (start_session (Some S) name u))
           \<and> buildLogs (state (drive ts (start_session (Some S) name w))) S =
               buildLogs (state (run (fired S ts (start_session (Some S) name w))
                                  (start_session (Some S) name u))) S"
    if "\<forall>t \<in> set ts. foreign S t" for ts
    using session_simulation [OF start_session_alone [OF assms, of name, folded u_def] that]
    by simp
  from sim have D: "\<forall>ts. (\<forall>t \<in> set ts. foreign S t) \<longrightarrow>
                 own_timers S (drive ts (start_session (Some S) name w)) =
                 timers (run (fired S ts (start_session (Some S) name w)) (start_session (Some S) name u))
           \<and> buildLogs (state (drive ts (start_session (Some S) name w))) S =
               buildLogs (state (run (fired S ts (start_session (Some S) name w))
                                  (start_session (Some S) name u))) S"
    by blast
  from du have A: "\<forall>templateId. template_name templateId = Some name \<longrightarrow>
        deploy templateId (Inr (Some S)) w = (Deployed200, start_session (Some S) name w)"
    by blast
  note rest = old [THEN conjunct2, unfolded su cu]
  show ?thesis
    unfolding Let_def u_def [symmetric]
    using A rest D by blast
qed


theorem build_session_timeline_witness:
  "(let w = \<lparr>state = connection 1 (Some ''app7'') None hub_init, clock = 500,
              timers = [(1500, Purge ''old'')]\<rparr>;
        ms = messages ''Static Site'';
        start = rocket @ '' Starting template deployment...'';
        w0 = snd (deploy ''static-site'' (Inr (Some ''app7'')) w);
        alone = start_session (Some ''app7'') ''Static Site'' (w\<lparr>timers := []\<rparr>);
        ts = [Timer, Hub (ReadyState 1 CLOSED), Deploy 2000 ''wordpress'' (Inr (Some ''blog'')),
              Timer, Timer, Timer]
    in buffer_of (state (run 5 alone)) ''app7'' = start # ms
     \<and> received 1 (state (run 5 alone)) =
          [Live (ms ! 0) 2500, Live (ms ! 1) 4500, Live (ms ! 2) 6500, Live (ms ! 3) 8500,
           Live (ms ! 4) 10500]
     \<and> timers (run 6 alone) = [(3612500, Purge ''app7'')]
     \<and> clock (run 7 alone) = 3612500 \<and> timers (run 7 alone) = []
     \<and> buildLogs (state (run 7 alone)) ''app7'' = None
     \<and> received 1 (state (run 9 alone)) = received 1 (state (run 5 alone))
     \<and> fired ''app7'' ts w0 = 2
     \<and> buildLogs (state (drive ts w0)) ''app7'' = Some (start # take 2 ms)
     \<and> own_timers ''app7'' (drive ts w0) = [(6500, BuildTick ''app7'' ms 2)])"
proof -
  define w where "w = \<lparr>state = connection 1 (Some ''app7'') None hub_init, clock = 500,
              timers = [(1500, Purge ''old'')]\<rparr>"
  define w0 where "w0 = start_session (Some ''app7'') ''Static Site'' w"
  define alone where "alone = start_session (Some ''app7'') ''Static Site'' (w\<lparr>timers := []\<rparr>)"
  define ms where "ms = messages ''Static Site''"
  define start where "start = rocket @ '' Starting template deployment...''"
  define ts where "ts = [Timer, Hub (ReadyState 1 CLOSED),
      Deploy 2000 ''wordpress'' (Inr (Some ''blog'')), Timer, Timer, Timer]"
  have 1: "\<forall>t \<in> set (timers w). \<not> about ''app7'' (snd t)" by (simp add: w_def)
  have 2: "template_name ''static-site'' = Some ''Static Site''"
    by (simp add: template_name_def TEMPLATES_def)
  have 3: "''app7'' \<noteq> []" by simp
  have 4: "\<forall>t \<in> set ts. foreign ''app7'' t" by (simp add: ts_def)
  note th = build_session_timeline [OF 1 3, where name = "''Static Site''", unfolded Let_def,
      folded w0_def alone_def ms_def start_def]
  from th 2 have dep: "deploy ''static-site'' (Inr (Some ''app7'')) w = (Deployed200, w0)" by blast
  have len: "length ms = 5" using th by blast
  note steps = th [THEN conjunct2, THEN conjunct2, THEN conjunct1, rule_format]
  have s5: "5 \<le> (5::nat)" and s2: "2 \<le> (5::nat)" by simp_all
  note five = steps [OF s5, THEN conjunct1]
  from steps [OF s5, THEN conjunct2, THEN conjunct2] len have buf:
    "buffer_of (state (run 5 alone)) ''app7'' = start # ms"
    by simp
  from five have r5: "received 1 (state (run 5 alone)) =
          [Live (ms ! 0) 2500, Live (ms ! 1) 4500, Live (ms ! 2) 6500, Live (ms ! 3) 8500,
           Live (ms ! 4) 10500]"
    by (simp add: w_def connection_def hub_init_def Let_def publish_def broadcastLogs_def
        received_def send_def)
  from th have t6: "timers (run 6 alone) = [(3612500, Purge ''app7'')]" by (simp add: w_def)
  from th have c7: "clock (run 7 alone) = 3612500" by (simp add: w_def)
  from th have t7: "timers (run 7 alone) = []" by blast
  from th have b7: "buildLogs (state (run 7 alone)) ''app7'' = None" by blast
  from th have "run (7 + 2) alone = run 7 alone" by blast
  then have "state (run 9 alone) = state (run 7 alone)" by simp
  moreover from th have "sent (state (run 7 alone)) = sent (state (run 5 alone))" by blast
  ultimately have r9: "received 1 (state (run 9 alone)) = received 1 (state (run 5 alone))"
    by (simp add: received_def)
  have f: "fired ''app7'' ts w0 = 2"
    by (simp add: ts_def w0_def w_def start_session_def simulateBuildLogs_def tick_def
        length_messages deploy_def template_name_def TEMPLATES_def)
  from th 4 have sim: "own_timers ''app7'' (drive ts w0) = timers (run (fired ''app7'' ts w0) alone)"
    "buildLogs (state (drive ts w0)) ''app7'' =
       buildLogs (state (run (fired ''app7'' ts w0) alone)) ''app7''"
    by blast+
  from steps [OF s2, THEN conjunct2, THEN conjunct1]
  have two1: "timers (run 2 alone) = [(6500, BuildTick ''app7'' ms 2)]"
    by (simp add: w_def)
  note two = two1 steps [OF s2, THEN conjunct2, THEN conjunct2]
  from sim(1) f two(1) have o: "own_timers ''app7'' (drive ts w0) = [(6500, BuildTick ''app7'' ms 2)]"
    by simp
  from two(2) have "buildLogs (state (run 2 alone)) ''app7'' = Some (start # take 2 ms)"
    by (simp add: buffer_of_def split: option.splits)
  with sim(2) f have b: "buildLogs (state (drive ts w0)) ''app7'' = Some (start # take 2 ms)"
    by simp
  from dep have w0: "snd (deploy ''static-site'' (Inr (Some ''app7'')) w) = w0" by simp
  from buf r5 t6 c7 t7 b7 r9 f b o show ?thesis
    unfolding Let_def w0 [unfolded w_def] ms_def [symmetric] start_def [symmetric]
      alone_def [symmetric, unfolded w_def] ts_def [symmetric]
    by simp
qed

text \<open>
  The claim C4 as stated fails for a session whose subject still has the purge of an
  earlier session pending. A first deployment answered with \<^verbatim>\<open>app7\<close> at the time 0 leaves,
  after its six ticks, its purge due at 3612000. A second deployment answered with
  \<^verbatim>\<open>app7\<close> at 3611000 starts a session of which nothing is cancelled later: the next
  turn is the purge of the first session, which deletes the buffer 1000 ms after the
  second session has started, and the turn after it is the first tick of the second
  session at 3613000, a publish to \<^verbatim>\<open>app7\<close> after the purge.
\<close>

theorem second_session_purged_early:
  "(let w = drive [Deploy 0 ''static-site'' (Inr (Some ''app7'')),
                   Timer, Timer, Timer, Timer, Timer, Timer,
                   Deploy 3611000 ''static-site'' (Inr (Some ''app7''))]
              \<lparr>state = hub_init, clock = 0, timers = []\<rparr>;
        w1 = turn_step Timer w;
        w2 = turn_step Timer w1
    in clock w = 3611000
     \<and> buildLogs (state w) ''app7'' = Some [rocket @ '' Starting template deployment...'']
     \<and> clock w1 = 3612000 \<and> buildLogs (state w1) ''app7'' = None
     \<and> clock w2 = 3613000
     \<and> buildLogs (state w2) ''app7'' = Some [messages ''Static Site'' ! 0])"
  by (simp add: deploy_def template_name_def TEMPLATES_def start_session_def
      simulateBuildLogs_def tick_def length_messages publish_def broadcastLogs_def hub_init_def)

text \<open>
  A key that the table only inherits is not refused: the request for the template
  \<^verbatim>\<open>constructor\<close> is answered with status 200 and starts a session for the template name
  \<^verbatim>\<open>Object\<close>.
\<close>

lemma deploy_inherited_key:
  "deploy ''constructor'' (Inr (Some ''app7'')) w =
     (Deployed200, start_session (Some ''app7'') ''Object'' w)"
  by (simp add: deploy_def template_name_def TEMPLATES_def Object_prototype_def)

end
